theory Spec2Isabelle
  imports Complex_Main "HOL-Library.Sublist" "HOL-Library.Multiset" "HOL-Library.AList"
begin

section \<open>Python strings\<close>

text \<open>
  A Python \<open>str\<close> is a sequence of Unicode code points: the list of their numbers. A
  string literal of the source is written \<open>str ''...''\<close>.
\<close>

type_synonym pystr = "nat list"

definition str :: "string \<Rightarrow> pystr" where
  "str s = map of_char s"

text \<open>
  Two tables of the Unicode database are parameters of the model, for the code points from
  256 on: which of them \<open>str.isspace\<close> accepts (the regular-expression class \<open>\s\<close>,
  \<open>str.strip\<close> and \<open>str.split\<close> use the same test), and what \<open>str.lower\<close> returns for a
  string that holds such a code point (the whole string, since the lower case of a
  capital sigma depends on its neighbours, and one character may become several).
  Below 256 both are written out: whitespace are the code points 9-13, 28-32, 133 and
  160, and \<open>str.lower\<close> adds 32 to \<open>A-Z\<close> and to the capitals 192-222 other than 215.
\<close>

record unicode =
  isspace_above :: "nat \<Rightarrow> bool"
  lower_above :: "pystr \<Rightarrow> pystr"

definition py_isspace :: "unicode \<Rightarrow> nat \<Rightarrow> bool" where
  "py_isspace U c =
     (if c < 256 then (9 \<le> c \<and> c \<le> 13) \<or> (28 \<le> c \<and> c \<le> 32) \<or> c = 133 \<or> c = 160
      else isspace_above U c)"

definition lower_latin1 :: "nat \<Rightarrow> nat" where
  "lower_latin1 c =
     (if (65 \<le> c \<and> c \<le> 90) \<or> (192 \<le> c \<and> c \<le> 222 \<and> c \<noteq> 215) then c + 32 else c)"

definition lower :: "unicode \<Rightarrow> pystr \<Rightarrow> pystr" where
  "lower U s = (if list_all (\<lambda>c. c < 256) s then map lower_latin1 s else lower_above U s)"

definition lstrip :: "unicode \<Rightarrow> pystr \<Rightarrow> pystr" where
  "lstrip U s = dropWhile (py_isspace U) s"

definition rstrip :: "unicode \<Rightarrow> pystr \<Rightarrow> pystr" where
  "rstrip U s = rev (dropWhile (py_isspace U) (rev s))"

definition strip :: "unicode \<Rightarrow> pystr \<Rightarrow> pystr" where
  "strip U s = rstrip U (lstrip U s)"

text \<open>
  \<open>re.sub(r"\s+", " ", text)\<close>: every maximal run of whitespace becomes one space (code
  point 32).
\<close>

function collapse_ws :: "unicode \<Rightarrow> pystr \<Rightarrow> pystr" where
  "collapse_ws U [] = []"
| "collapse_ws U (c # cs) =
     (if py_isspace U c then 32 # collapse_ws U (dropWhile (py_isspace U) cs)
      else c # collapse_ws U cs)"
  by pat_completeness auto
termination
  by (relation "measure (\<lambda>(U, s). length s)") (auto simp: le_imp_less_Suc length_dropWhile_le)

text \<open>\<open>" ".join(parts)\<close>\<close>

fun join_space :: "pystr list \<Rightarrow> pystr" where
  "join_space [] = []"
| "join_space [s] = s"
| "join_space (s # t # ss) = s @ 32 # join_space (t # ss)"

text \<open>
  A table for statements about given ASCII texts, where neither parameter is consulted.
\<close>

definition plain :: unicode where
  "plain = \<lparr>isspace_above = (\<lambda>c. False), lower_above = (\<lambda>s. s)\<rparr>"

section \<open>Exceptions\<close>

text \<open>
  A raised exception is a value: a fallible function returns \<open>exn + 'a\<close>, with \<open>Inl\<close> for
  the exception that escapes it.
\<close>

datatype exn =
    KeyError | IndexError | AttributeError | TypeError | ValueError
  | Timeout | ConnectionError | HTTPError | InvalidJSONError
  | ArxivError

text \<open>The subclasses of \<open>requests.RequestException\<close> (what \<open>except requests.RequestException\<close> catches).\<close>

definition is_RequestException :: "exn \<Rightarrow> bool" where
  "is_RequestException e = (e \<in> {Timeout, ConnectionError, HTTPError, InvalidJSONError})"

text \<open>Sequencing of fallible steps: the first exception raised ends the computation.\<close>

definition then_do :: "exn + 'a \<Rightarrow> ('a \<Rightarrow> exn + 'b) \<Rightarrow> exn + 'b" where
  "then_do m f = (case m of Inl e \<Rightarrow> Inl e | Inr x \<Rightarrow> f x)"

section \<open>The data model (\<open>models.py\<close>)\<close>

record Paper =
  title :: pystr
  abstract :: pystr
  authors :: "pystr list"
  year :: "int option"
  source :: pystr
  paper_url :: pystr
  pdf_url :: pystr
  venue :: pystr
  citations :: "int option"

record PaperAnalysis =
  paper :: Paper
  insights :: pystr
  literature_review :: pystr
  method_used :: pystr
  contributions :: pystr
  limitations :: pystr
  future_work :: pystr
  citations :: pystr
  research_gap :: pystr

section \<open>Title normalisation and deduplication (\<open>utils/text.py\<close>)\<close>

text \<open>The character class \<open>[a-z0-9 ]\<close> of the second substitution.\<close>

definition title_char :: "nat \<Rightarrow> bool" where
  "title_char c = ((97 \<le> c \<and> c \<le> 122) \<or> (48 \<le> c \<and> c \<le> 57) \<or> c = 32)"

definition normalize_title :: "unicode \<Rightarrow> pystr \<Rightarrow> pystr" where
  "normalize_title U text =
     (let text1 = strip U (lower U text);
          text2 = collapse_ws U text1
      in filter title_char text2)"

text \<open>
  The loop of \<open>dedupe_by_title\<close>, with its two variables \<open>seen\<close> and \<open>output\<close>.
\<close>

fun dedupe_loop ::
  "unicode \<Rightarrow> ('a \<Rightarrow> pystr) \<Rightarrow> 'a list \<Rightarrow> pystr set \<Rightarrow> 'a list \<Rightarrow> 'a list" where
  "dedupe_loop U title_getter [] seen output = output"
| "dedupe_loop U title_getter (item # items) seen output =
     (let key = normalize_title U (title_getter item)
      in if key \<in> seen then dedupe_loop U title_getter items seen output
         else dedupe_loop U title_getter items (insert key seen) (output @ [item]))"

definition dedupe_by_title :: "unicode \<Rightarrow> 'a list \<Rightarrow> ('a \<Rightarrow> pystr) \<Rightarrow> 'a list" where
  "dedupe_by_title U items title_getter = dedupe_loop U title_getter items {} []"

text \<open>
  For the statements about titles. The normalisation in the words of the specification,
  in the order in which it lists the steps: lower case, then only letters, digits and
  spaces kept, then whitespace collapsed. An ASCII letter or digit, a title without any,
  a text of ASCII characters only, and a paper record with a given title, abstract and
  year.
\<close>

definition spec_normalize_title :: "unicode \<Rightarrow> pystr \<Rightarrow> pystr" where
  "spec_normalize_title U text = collapse_ws U (filter title_char (lower U text))"




definition example_paper :: "string \<Rightarrow> string \<Rightarrow> int option \<Rightarrow> Paper" where
  "example_paper t a y =
     \<lparr>title = str t, abstract = str a, authors = [], year = y, source = str ''arXiv'',
      paper_url = [], pdf_url = [], venue = str ''arXiv'', citations = None\<rparr>"

section \<open>The year filter (\<open>pipeline.py\<close>)\<close>

fun year_loop :: "Paper list \<Rightarrow> int option \<Rightarrow> int option \<Rightarrow> Paper list \<Rightarrow> Paper list" where
  "year_loop [] start_year end_year filtered = filtered"
| "year_loop (p # papers) start_year end_year filtered =
     (case year p of
        None \<Rightarrow> year_loop papers start_year end_year filtered
      | Some y \<Rightarrow>
          if start_year \<noteq> None \<and> y < the start_year
            then year_loop papers start_year end_year filtered
          else if end_year \<noteq> None \<and> y > the end_year
            then year_loop papers start_year end_year filtered
          else year_loop papers start_year end_year (filtered @ [p]))"

definition filter_by_year :: "Paper list \<Rightarrow> int option \<Rightarrow> int option \<Rightarrow> Paper list" where
  "filter_by_year papers start_year end_year =
     (if start_year = None \<and> end_year = None then papers
      else year_loop papers start_year end_year [])"

section \<open>Section extraction (\<open>analyzers/section_extractor.py\<close>)\<close>

definition SECTION_KEYWORDS :: "(string \<times> pystr list) list" where
  "SECTION_KEYWORDS =
    [(''literature_review'',
        map str
        [''related work'', ''previous work'', ''prior work'', ''existing methods'',
         ''state-of-the-art'', ''literature'', ''baseline'', ''compared'']),
     (''method_used'',
        map str
        [''we propose'', ''our approach'', ''method'', ''framework'', ''architecture'',
         ''algorithm'', ''model'', ''training'', ''dataset'', ''evaluation'', ''experiment'']),
     (''contributions'',
        map str
        [''contribution'', ''we introduce'', ''we present'', ''novel'', ''new'', ''first'',
         ''outperform'', ''improve'', ''significant'']),
     (''limitations'',
        map str
        [''limitation'', ''however'', ''challenge'', ''constraint'', ''drawback'', ''cannot'',
         ''fails'', ''costly'', ''expensive'', ''still difficult'']),
     (''future_work'',
        map str
        [''future work'', ''in future'', ''further work'', ''next step'', ''can be extended'',
         ''promising direction''])]"

definition sections :: "string list" where
  "sections =
    [''insights'', ''literature_review'', ''method_used'', ''contributions'', ''limitations'',
     ''future_work'', ''research_gap'']"

text \<open>
  \<open>re.split(r"(?<=[.!?])\s+", text)\<close>: the text is cut at every maximal run of whitespace
  that directly follows one of \<open>.\<close>, \<open>!\<close>, \<open>?\<close> (code points 46, 33, 63); \<open>cur\<close> is the
  piece read so far.
\<close>

definition sentence_end :: "nat \<Rightarrow> bool" where
  "sentence_end c = (c = 46 \<or> c = 33 \<or> c = 63)"

function re_split_sentences :: "unicode \<Rightarrow> pystr \<Rightarrow> pystr \<Rightarrow> pystr list" where
  "re_split_sentences U cur [] = [cur]"
| "re_split_sentences U cur (c # cs) =
     (if py_isspace U c \<and> cur \<noteq> [] \<and> sentence_end (last cur)
      then cur # re_split_sentences U [] (dropWhile (py_isspace U) cs)
      else re_split_sentences U (cur @ [c]) cs)"
  by pat_completeness auto
termination
  by (relation "measure (\<lambda>(U, cur, rest). length rest)")
     (auto simp: le_imp_less_Suc length_dropWhile_le)

definition split_sentences :: "unicode \<Rightarrow> pystr \<Rightarrow> pystr list" where
  "split_sentences U text0 =
     (let text = strip U text0
      in if text = [] then []
         else [strip U c. c \<leftarrow> re_split_sentences U [] text, strip U c \<noteq> []])"

text \<open>\<open>sum(1 for kw in keywords if kw in lower)\<close>, where \<open>in\<close> is the substring test.\<close>

definition sentence_score :: "unicode \<Rightarrow> pystr list \<Rightarrow> pystr \<Rightarrow> nat" where
  "sentence_score U keywords sent =
     (let lower_sent = lower U sent
      in length [kw \<leftarrow> keywords. sublist kw lower_sent])"

text \<open>
  \<open>scored.sort(key=lambda x: x[0], reverse=True)\<close> is Python's stable sort, by descending
  score: \<open>sort_key\<close> (a stable insertion sort) on the negated score.
\<close>

definition sort_scored :: "(nat \<times> pystr) list \<Rightarrow> (nat \<times> pystr) list" where
  "sort_scored scored = sort_key (\<lambda>x. - int (fst x)) scored"

definition extract_section_text ::
  "unicode \<Rightarrow> pystr list \<Rightarrow> string \<Rightarrow> nat \<Rightarrow> exn + pystr" where
  "extract_section_text U sentences section top_k =
     (case map_of SECTION_KEYWORDS section of
        None \<Rightarrow> Inl KeyError
      | Some keywords \<Rightarrow>
          (let scored = [(sentence_score U keywords sent, sent).
                           sent \<leftarrow> sentences, sentence_score U keywords sent > 0]
           in if scored \<noteq> []
                then Inr (join_space (map snd (take top_k (sort_scored scored))))
              else if section = ''method_used''
                then Inr (join_space (take (min 2 (length sentences)) sentences))
              else if section = ''contributions''
                then (if sentences = [] then Inl IndexError else Inr (last sentences))
              else if section = ''limitations''
                then Inr (str ''Not explicitly stated in the abstract; practical constraints and edge-case behavior require deeper full-text review.'')
              else if section = ''future_work''
                then Inr (str ''Not explicitly stated in abstract.'')
              else (if sentences = [] then Inl IndexError else Inr (hd sentences))))"

definition build_insights :: "pystr list \<Rightarrow> pystr \<Rightarrow> pystr \<Rightarrow> pystr" where
  "build_insights sentences method_used_text contributions_text =
     (let core = join_space (take (min 2 (length sentences)) sentences)
      in str ''This paper focuses on a concrete problem setting and proposes a targeted strategy. ''
         @ str ''Core context: '' @ core @ str '' ''
         @ str ''Technical direction: '' @ method_used_text @ str '' ''
         @ str ''Main outcome: '' @ contributions_text)"

definition derive_future_work :: "pystr \<Rightarrow> pystr" where
  "derive_future_work limitations_text =
     str ''Inferred future direction from limitations: extend evaluation across more diverse datasets, ''
     @ str ''improve robustness in edge cases, and optimize efficiency for real-world deployment. ''
     @ str ''Key limitation context: '' @ limitations_text"

definition derive_research_gap :: "pystr \<Rightarrow> pystr \<Rightarrow> pystr \<Rightarrow> pystr" where
  "derive_research_gap literature_review_text limitations_text future_work_text =
     str ''Current work indicates a gap between benchmark performance and reliable deployment in real settings. ''
     @ str ''More standardized evaluation protocols, transparent failure analysis, and cross-domain generalization studies are needed. ''
     @ str ''Evidence from related-work context: '' @ literature_review_text @ str '' ''
     @ str ''Observed constraints: '' @ limitations_text @ str '' ''
     @ str ''Forward direction: '' @ future_work_text"

definition NOT_ENOUGH :: pystr where
  "NOT_ENOUGH = str ''Not enough information in abstract.''"

text \<open>\<open>SectionExtractor.extract\<close>; the returned dict is an association list in insertion order.\<close>

definition SectionExtractor_extract :: "unicode \<Rightarrow> pystr \<Rightarrow> exn + (string \<times> pystr) list" where
  "SectionExtractor_extract U abstract_text =
     (let sentences = split_sentences U abstract_text
      in if sentences = [] then Inr [(k, NOT_ENOUGH). k \<leftarrow> sections]
         else
          then_do (extract_section_text U sentences ''literature_review'' 2) (\<lambda>literature_review_text.
          then_do (extract_section_text U sentences ''method_used'' 3) (\<lambda>method_used_text.
          then_do (extract_section_text U sentences ''contributions'' 2) (\<lambda>contributions_text.
          then_do (extract_section_text U sentences ''limitations'' 2) (\<lambda>limitations_text.
          then_do (extract_section_text U sentences ''future_work'' 2) (\<lambda>future_work0.
            (let insights_text = build_insights sentences method_used_text contributions_text;
                 future_work_text =
                   (if sublist (str ''Not explicitly stated'') future_work0
                    then derive_future_work limitations_text else future_work0);
                 research_gap_text =
                   derive_research_gap literature_review_text limitations_text future_work_text
             in Inr [(''insights'', insights_text),
                     (''literature_review'', literature_review_text),
                     (''method_used'', method_used_text),
                     (''contributions'', contributions_text),
                     (''limitations'', limitations_text),
                     (''future_work'', future_work_text),
                     (''research_gap'', research_gap_text)])))))))"

section \<open>The per-paper step of the query pipeline (\<open>pipeline.py\<close>)\<close>

text \<open>\<open>str(n)\<close> for an integer, as the f-string prints it (digits are the code points 48-57).\<close>

fun str_nat :: "nat \<Rightarrow> pystr" where
  "str_nat n = (if n < 10 then [48 + n] else str_nat (n div 10) @ [48 + n mod 10])"

declare str_nat.simps [simp del]

definition str_int :: "int \<Rightarrow> pystr" where
  "str_int i = (if i < 0 then 45 # str_nat (nat (- i)) else str_nat (nat i))"

text \<open>\<open>sections[key]\<close>\<close>

definition py_getitem :: "(string \<times> pystr) list \<Rightarrow> string \<Rightarrow> exn + pystr" where
  "py_getitem d k = (case map_of d k of None \<Rightarrow> Inl KeyError | Some v \<Rightarrow> Inr v)"

definition citation_text :: "Paper \<Rightarrow> pystr" where
  "citation_text p =
     (case Paper.citations p of
        Some n \<Rightarrow> str ''Cited by approximately '' @ str_int n @ str '' papers (source metadata).''
      | None \<Rightarrow> str ''Citation count unavailable in source metadata.'')"

text \<open>The body of the loop \<open>for paper in papers\<close> of \<open>analyze_query\<close>.\<close>

definition analyze_paper :: "unicode \<Rightarrow> Paper \<Rightarrow> exn + PaperAnalysis" where
  "analyze_paper U p =
     then_do (SectionExtractor_extract U (abstract p)) (\<lambda>secs.
     then_do (py_getitem secs ''insights'') (\<lambda>v_insights.
     then_do (py_getitem secs ''literature_review'') (\<lambda>v_literature_review.
     then_do (py_getitem secs ''method_used'') (\<lambda>v_method_used.
     then_do (py_getitem secs ''contributions'') (\<lambda>v_contributions.
     then_do (py_getitem secs ''limitations'') (\<lambda>v_limitations.
     then_do (py_getitem secs ''future_work'') (\<lambda>v_future_work.
     then_do (py_getitem secs ''research_gap'') (\<lambda>v_research_gap.
       Inr \<lparr>paper = p,
            insights = v_insights,
            literature_review = v_literature_review,
            method_used = v_method_used,
            contributions = v_contributions,
            limitations = v_limitations,
            future_work = v_future_work,
            citations = citation_text p,
            research_gap = v_research_gap\<rparr>))))))))"

section \<open>JSON values and the HTTP transport\<close>

text \<open>
  What \<open>response.json()\<close> can return. Python's \<open>None\<close> is \<open>JNull\<close>; a dict is an
  association list (the first binding of a key is the one read).
\<close>

datatype json =
    JNull | JBool bool | JNum real | JStr pystr | JList "json list"
  | JDict "(pystr \<times> json) list"

text \<open>Python truthiness (\<open>if item\<close>, \<open>x or y\<close>).\<close>

fun truthy :: "json \<Rightarrow> bool" where
  "truthy JNull = False"
| "truthy (JBool b) = b"
| "truthy (JNum n) = (n \<noteq> 0)"
| "truthy (JStr s) = (s \<noteq> [])"
| "truthy (JList xs) = (xs \<noteq> [])"
| "truthy (JDict kvs) = (kvs \<noteq> [])"

text \<open>\<open>value.get(key, default)\<close>: only a dict has the method.\<close>

fun py_get :: "json \<Rightarrow> pystr \<Rightarrow> json \<Rightarrow> exn + json" where
  "py_get (JDict kvs) k d = Inr (case map_of kvs k of None \<Rightarrow> d | Some v \<Rightarrow> v)"
| "py_get v k d = Inl AttributeError"

text \<open>Iterating a value: the items of a list, the characters of a string, the keys of a dict.\<close>

fun py_iter :: "json \<Rightarrow> exn + json list" where
  "py_iter (JList xs) = Inr xs"
| "py_iter (JStr s) = Inr (map (\<lambda>c. JStr [c]) s)"
| "py_iter (JDict kvs) = Inr (map (\<lambda>kv. JStr (fst kv)) kvs)"
| "py_iter v = Inl TypeError"

text \<open>\<open>items[0]\<close>\<close>

fun py_index0 :: "json \<Rightarrow> exn + json" where
  "py_index0 (JList xs) = (case xs of [] \<Rightarrow> Inl IndexError | x # rest \<Rightarrow> Inr x)"
| "py_index0 (JStr s) = (case s of [] \<Rightarrow> Inl IndexError | c # rest \<Rightarrow> Inr (JStr [c]))"
| "py_index0 (JDict kvs) = Inl KeyError"
| "py_index0 v = Inl TypeError"

record request =
  url :: pystr
  params :: "(string \<times> json) list"
  timeout :: int
  headers :: "(string \<times> string) list"

text \<open>
  The effects of the component, in the order they happen: a call of \<open>requests.get\<close> and a
  call of \<open>time.sleep\<close>.
\<close>

datatype event = Get request | Sleep real

record response =
  status_code :: int
  json_body :: "exn + json"

datatype get_outcome = Raises exn | Responds response

text \<open>
  The network is a parameter: what \<open>requests.get\<close> does for a request, given everything
  that happened before it. \<open>json_body\<close> is what \<open>response.json()\<close> returns or raises.
\<close>

type_synonym transport = "event list \<Rightarrow> request \<Rightarrow> get_outcome"

definition raise_for_status :: "response \<Rightarrow> exn + unit" where
  "raise_for_status r =
     (if 400 \<le> status_code r \<and> status_code r < 600 then Inl HTTPError else Inr ())"

section \<open>The retrying request helper (\<open>analyzers/upload_analyzer.py\<close>)\<close>

text \<open>
  The loop \<open>for attempt in range(attempts)\<close> of \<open>_request_json_with_retries\<close>. \<open>retry\<close> is the
  block that the source repeats three times:
  \<open>if attempt < attempts - 1: time.sleep(0.6 * (attempt + 1)); continue\<close>, then
  \<open>return None\<close>. An exception that neither \<open>except\<close> clause catches escapes as \<open>Inl\<close>.
\<close>

function request_loop ::
  "transport \<Rightarrow> request \<Rightarrow> int \<Rightarrow> nat \<Rightarrow> event list \<Rightarrow> event list \<times> (exn + json)" where
  "request_loop tr req attempts attempt trace =
     (if \<not> int attempt < attempts then (trace, Inr JNull)
      else
        (let trace1 = trace @ [Get req];
             retry =
               (if int attempt < attempts - 1
                then request_loop tr req attempts (Suc attempt)
                       (trace1 @ [Sleep (0.6 * (real attempt + 1))])
                else (trace1, Inr JNull));
             handler = (\<lambda>e. if e = Timeout then retry
                            else if is_RequestException e then retry
                            else (trace1, Inl e))
         in case tr trace req of
              Raises e \<Rightarrow> handler e
            | Responds r \<Rightarrow>
                if status_code r \<in> {429, 500, 502, 503, 504} then retry
                else (case raise_for_status r of
                        Inl e \<Rightarrow> handler e
                      | Inr u \<Rightarrow>
                          (case json_body r of
                             Inl e \<Rightarrow> handler e
                           | Inr v \<Rightarrow> (trace1, Inr v)))))"
  by pat_completeness auto
termination
  by (relation "measure (\<lambda>(tr, req, attempts, attempt, trace). nat (attempts - int attempt))")
     auto

declare request_loop.simps [simp del]

text \<open>
  For the statements about retries: a transport on which every request fails with a
  \<open>requests\<close> exception (a timeout, a connection error), and the number of requests in a
  trace.
\<close>

definition always_failing :: "transport \<Rightarrow> bool" where
  "always_failing tr = (\<forall>h r. \<exists>e. tr h r = Raises e \<and> is_RequestException e)"

definition attempts_made :: "event list \<Rightarrow> nat" where
  "attempts_made trace = length [e \<leftarrow> trace. case e of Get r \<Rightarrow> True | Sleep d \<Rightarrow> False]"

definition request_json_with_retries ::
  "transport \<Rightarrow> pystr \<Rightarrow> (string \<times> json) list \<Rightarrow> int \<Rightarrow> int \<Rightarrow> event list
     \<Rightarrow> event list \<times> (exn + json)" where
  "request_json_with_retries tr u ps attempts tmo trace =
     request_loop tr
       \<lparr>url = u, params = ps, timeout = tmo,
        headers = [(''User-Agent'', ''ScholarSync/1.0 (+local-upload-enrichment)'')]\<rparr>
       attempts 0 trace"

section \<open>Metadata enrichment (\<open>analyzers/upload_analyzer.py\<close>)\<close>

text \<open>\<open>text.split()\<close>: the maximal runs of non-whitespace characters.\<close>

fun py_split_from :: "unicode \<Rightarrow> pystr \<Rightarrow> pystr \<Rightarrow> pystr list" where
  "py_split_from U cur [] = (if cur = [] then [] else [cur])"
| "py_split_from U cur (c # cs) =
     (if py_isspace U c
      then (if cur = [] then py_split_from U [] cs else cur # py_split_from U [] cs)
      else py_split_from U (cur @ [c]) cs)"

definition py_split :: "unicode \<Rightarrow> pystr \<Rightarrow> pystr list" where
  "py_split U s = py_split_from U [] s"

text \<open>\<open>s.rstrip(chars)\<close>\<close>

definition rstrip_chars :: "pystr \<Rightarrow> pystr \<Rightarrow> pystr" where
  "rstrip_chars chars s = rev (dropWhile (\<lambda>c. c \<in> set chars) (rev s))"

definition tokenize_title :: "unicode \<Rightarrow> pystr \<Rightarrow> pystr list" where
  "tokenize_title U text0 =
     (let text1 = lower U text0;
          text2 = map (\<lambda>c. if title_char c then c else 32) text1;
          tokens = [t \<leftarrow> py_split U text2. length t > 2];
          stop = set (map str [''the'', ''and'', ''for'', ''with'', ''from'', ''using'', ''study'',
                               ''paper'', ''approach'', ''method''])
      in [t \<leftarrow> tokens. t \<notin> stop])"

text \<open>
  \<open>_tokenize_title\<close> on a value read from JSON: \<open>(text or "").lower()\<close> needs a string
  unless the value is falsy.
\<close>

definition tokenize_title_value :: "unicode \<Rightarrow> json \<Rightarrow> exn + pystr list" where
  "tokenize_title_value U v =
     (if \<not> truthy v then Inr (tokenize_title U [])
      else case v of JStr t \<Rightarrow> Inr (tokenize_title U t) | other \<Rightarrow> Inl AttributeError)"

text \<open>The inner function \<open>score\<close> of \<open>_best_title_match\<close> (Jaccard similarity of token sets).\<close>

definition title_score :: "unicode \<Rightarrow> pystr set \<Rightarrow> json \<Rightarrow> exn + real" where
  "title_score U query_tokens item =
     then_do (py_get item (str ''title'') (JStr [])) (\<lambda>cand_title.
     then_do (tokenize_title_value U cand_title) (\<lambda>toks.
       (let cand_tokens = set toks
        in if cand_tokens = {} then Inr 0
           else (let inter = card (query_tokens \<inter> cand_tokens);
                     union = card (query_tokens \<union> cand_tokens)
                 in Inr (if union \<noteq> 0 then real inter / real union else 0)))))"

text \<open>The keys of \<open>sorted(items, key=score, ...)\<close>, computed item by item.\<close>

fun score_all :: "unicode \<Rightarrow> pystr set \<Rightarrow> json list \<Rightarrow> exn + (real \<times> json) list" where
  "score_all U query_tokens [] = Inr []"
| "score_all U query_tokens (item # items) =
     then_do (title_score U query_tokens item) (\<lambda>sc.
     then_do (score_all U query_tokens items) (\<lambda>rest. Inr ((sc, item) # rest)))"

definition best_title_match :: "unicode \<Rightarrow> pystr \<Rightarrow> json \<Rightarrow> exn + json" where
  "best_title_match U query_title items =
     (let query_tokens = set (tokenize_title U query_title)
      in if query_tokens = {} then py_index0 items
         else
           then_do (py_iter items) (\<lambda>xs.
           then_do (score_all U query_tokens xs) (\<lambda>keyed.
             (case map snd (sort_key (\<lambda>kx. - fst kx) keyed) of
                [] \<Rightarrow> Inl IndexError
              | best # others \<Rightarrow> Inr best))))"

text \<open>
  \<open>[a.get("name", "") for a in ... if a.get("name")]\<close>
\<close>

fun author_names :: "json list \<Rightarrow> exn + json list" where
  "author_names [] = Inr []"
| "author_names (a # rest) =
     then_do (py_get a (str ''name'') JNull) (\<lambda>n.
       if truthy n
       then then_do (py_get a (str ''name'') (JStr [])) (\<lambda>nm.
            then_do (author_names rest) (\<lambda>names. Inr (nm # names)))
       else author_names rest)"

text \<open>
  The dict literal that both lookups build from the item received.
\<close>

definition metadata_record :: "json \<Rightarrow> exn + json" where
  "metadata_record item =
     then_do (py_get item (str ''title'') (JStr [])) (\<lambda>v_title.
     then_do (py_get item (str ''year'') JNull) (\<lambda>v_year.
     then_do (py_get item (str ''authors'') (JList [])) (\<lambda>v_authors.
     then_do (py_iter v_authors) (\<lambda>author_items.
     then_do (author_names author_items) (\<lambda>names.
     then_do (py_get item (str ''venue'') (JStr [])) (\<lambda>v_venue.
     then_do (py_get item (str ''url'') (JStr [])) (\<lambda>v_url.
     then_do (py_get item (str ''openAccessPdf'') JNull) (\<lambda>v_pdf.
     then_do (py_get (if truthy v_pdf then v_pdf else JDict []) (str ''url'') (JStr [])) (\<lambda>v_pdf_url.
     then_do (py_get item (str ''citationCount'') JNull) (\<lambda>v_count.
       Inr (JDict [(str ''title'', v_title),
                   (str ''year'', v_year),
                   (str ''authors'', JList names),
                   (str ''venue'', v_venue),
                   (str ''paper_url'', v_url),
                   (str ''pdf_url'', v_pdf_url),
                   (str ''citation_count'', v_count)])))))))))))"

definition FIELDS :: pystr where
  "FIELDS = str ''title,year,authors,venue,url,openAccessPdf,citationCount''"

definition doi_url :: "pystr \<Rightarrow> pystr" where
  "doi_url doi = str ''https://api.semanticscholar.org/graph/v1/paper/DOI:'' @ doi"

definition search_url :: pystr where
  "search_url = str ''https://api.semanticscholar.org/graph/v1/paper/search''"

text \<open>
  \<open>_lookup_semantic_scholar_by_doi\<close>. The whole body is inside \<open>try ... except Exception\<close>, so
  every exception becomes \<open>None\<close>.
\<close>

definition lookup_semantic_scholar_by_doi ::
  "unicode \<Rightarrow> transport \<Rightarrow> event list \<Rightarrow> pystr \<Rightarrow> event list \<times> json" where
  "lookup_semantic_scholar_by_doi U tr trace doi0 =
     (let doi = rstrip_chars (str '').,;'') (lower U (strip U doi0))
      in if doi = [] then (trace, JNull)
         else
           (case request_json_with_retries tr (doi_url doi) [(''fields'', JStr FIELDS)] 3 14 trace of
              (trace1, Inl e) \<Rightarrow> (trace1, JNull)
            | (trace1, Inr item) \<Rightarrow>
                if \<not> truthy item then (trace1, JNull)
                else (case metadata_record item of
                        Inl e \<Rightarrow> (trace1, JNull)
                      | Inr d \<Rightarrow> (trace1, d))))"

text \<open>
  The second half of \<open>_lookup_semantic_scholar\<close>, from \<open>if not title\<close> on: the title search.
\<close>

definition lookup_by_title ::
  "unicode \<Rightarrow> transport \<Rightarrow> event list \<Rightarrow> pystr option \<Rightarrow> event list \<times> json" where
  "lookup_by_title U tr trace title_arg =
     (case title_arg of
        None \<Rightarrow> (trace, JNull)
      | Some t \<Rightarrow>
          if t = [] then (trace, JNull)
          else
            (case request_json_with_retries tr search_url
                    [(''query'', JStr t), (''limit'', JNum 5), (''fields'', JStr FIELDS)]
                    3 14 trace of
               (trace1, Inl e) \<Rightarrow> (trace1, JNull)
             | (trace1, Inr response_data) \<Rightarrow>
                 if \<not> truthy response_data then (trace1, JNull)
                 else
                  (case then_do (py_get response_data (str ''data'') (JList [])) (\<lambda>data.
                          if \<not> truthy data then Inr JNull
                          else then_do (best_title_match U t data) metadata_record) of
                     Inl e \<Rightarrow> (trace1, JNull)
                   | Inr r \<Rightarrow> (trace1, r))))"

text \<open>
  \<open>_lookup_semantic_scholar\<close>: with a truthy \<open>doi\<close> the DOI lookup comes first, and a truthy
  result of it is returned at once.
\<close>

definition lookup_semantic_scholar ::
  "unicode \<Rightarrow> transport \<Rightarrow> event list \<Rightarrow> pystr option \<Rightarrow> pystr option
     \<Rightarrow> event list \<times> json" where
  "lookup_semantic_scholar U tr trace doi_arg title_arg =
     (case doi_arg of
        None \<Rightarrow> lookup_by_title U tr trace title_arg
      | Some doi \<Rightarrow>
          if doi = [] then lookup_by_title U tr trace title_arg
          else
            (case lookup_semantic_scholar_by_doi U tr trace doi of
               (trace1, exact) \<Rightarrow>
                 if truthy exact then (trace1, exact)
                 else lookup_by_title U tr trace1 title_arg))"

text \<open>For the statements about enrichment: the requests of a trace, and their URLs.\<close>

definition requested_urls :: "event list \<Rightarrow> pystr list" where
  "requested_urls trace =
     concat (map (\<lambda>e. case e of Get r \<Rightarrow> [url r] | Sleep d \<Rightarrow> []) trace)"

text \<open>
  A transport that answers every request with status 200 and the given JSON body.
\<close>

definition always_ok :: "json \<Rightarrow> transport" where
  "always_ok body = (\<lambda>h r. Responds \<lparr>status_code = 200, json_body = Inr body\<rparr>)"

section \<open>Multi-source search (\<open>services/paper_search.py\<close>)\<close>

text \<open>
  \<open>_search_arxiv\<close> and \<open>_search_semantic_scholar\<close> are calls into the \<open>arxiv\<close> client and the
  Semantic Scholar HTTP API. Each is a parameter: what the call returns or raises for a
  query and a result count, given the number of backend calls made before it (so that the
  same backend may answer differently the second time).
\<close>

type_synonym backend = "nat \<Rightarrow> pystr \<Rightarrow> int \<Rightarrow> exn + Paper list"

text \<open>\<open>int(x)\<close> on a float: truncation towards zero.\<close>

definition py_int :: "real \<Rightarrow> int" where
  "py_int x = (if x \<ge> 0 then \<lfloor>x\<rfloor> else \<lceil>x\<rceil>)"

definition search ::
  "backend \<Rightarrow> backend \<Rightarrow> nat \<Rightarrow> pystr \<Rightarrow> int \<Rightarrow> nat \<times> (exn + Paper list)" where
  "search search_arxiv search_semantic_scholar calls query max_results =
     (let arxiv_target = max 4 (py_int (real_of_int max_results * 0.6));
          semsch_target = max_results
      in case search_arxiv calls query arxiv_target of
           Inl e \<Rightarrow> (Suc calls, Inl e)
         | Inr found1 \<Rightarrow>
             (case search_semantic_scholar (Suc calls) query semsch_target of
                Inl e \<Rightarrow> (Suc (Suc calls), Inl e)
              | Inr found2 \<Rightarrow> (Suc (Suc calls), Inr (found1 @ found2))))"

text \<open>
  \<open>safe_search\<close>: \<open>except requests.RequestException\<close> catches the subclasses of that class
  only; the handler calls \<open>_search_arxiv\<close> once more, with the full \<open>max_results\<close>.
\<close>

definition safe_search ::
  "backend \<Rightarrow> backend \<Rightarrow> nat \<Rightarrow> pystr \<Rightarrow> int \<Rightarrow> nat \<times> (exn + Paper list)" where
  "safe_search search_arxiv search_semantic_scholar calls query max_results =
     (case search search_arxiv search_semantic_scholar calls query max_results of
        (calls1, Inr found) \<Rightarrow> (calls1, Inr found)
      | (calls1, Inl e) \<Rightarrow>
          if is_RequestException e
          then (Suc calls1, search_arxiv calls1 query max_results)
          else (calls1, Inl e))"

section \<open>The similarity graph (\<open>analyzers/corpus_analyzer.py\<close>)\<close>

text \<open>
  The \<open>networkx\<close> graph: nodes with their label, and undirected edges with their weight,
  each stored once under the ordered pair of its end points. Adding an edge that exists
  replaces its weight. (Every \<open>add_edge\<close> of \<open>paper_network_figure\<close> joins two nodes added
  before.)
\<close>

record graph =
  node_labels :: "(nat \<times> pystr) list"
  edges :: "((nat \<times> nat) \<times> real) list"

definition empty_graph :: graph where
  "empty_graph = \<lparr>node_labels = [], edges = []\<rparr>"

definition add_node :: "nat \<Rightarrow> pystr \<Rightarrow> graph \<Rightarrow> graph" where
  "add_node idx label g = g\<lparr>node_labels := AList.update idx label (node_labels g)\<rparr>"

definition add_edge :: "nat \<Rightarrow> nat \<Rightarrow> real \<Rightarrow> graph \<Rightarrow> graph" where
  "add_edge u v w g = g\<lparr>edges := AList.update (min u v, max u v) w (edges g)\<rparr>"

definition number_of_edges :: "graph \<Rightarrow> nat" where
  "number_of_edges g = length (edges g)"

text \<open>
  The two nested \<open>for\<close> statements over \<open>i\<close> and \<open>j\<close>: \<open>edge_step\<close> is the body of the inner loop,
  \<open>row_edges\<close> the inner loop \<open>for j in range(i + 1, len(titles))\<close>.
\<close>

definition edge_step :: "(nat \<Rightarrow> nat \<Rightarrow> real) \<Rightarrow> nat \<Rightarrow> nat \<Rightarrow> graph \<Rightarrow> graph" where
  "edge_step sim i j g =
     (let weight = sim i j
      in if weight \<ge> 0.12 then add_edge i j weight g else g)"

definition row_edges :: "nat \<Rightarrow> (nat \<Rightarrow> nat \<Rightarrow> real) \<Rightarrow> nat \<Rightarrow> graph \<Rightarrow> graph" where
  "row_edges n sim i g = fold (edge_step sim i) [Suc i..<n] g"

definition threshold_edges :: "nat \<Rightarrow> (nat \<Rightarrow> nat \<Rightarrow> real) \<Rightarrow> graph \<Rightarrow> graph" where
  "threshold_edges n sim g = fold (row_edges n sim) [0..<n] g"

text \<open>The fallback loop \<open>for i in range(len(titles) - 1)\<close>.\<close>

definition chain_edges :: "nat \<Rightarrow> graph \<Rightarrow> graph" where
  "chain_edges n g = fold (\<lambda>i g1. add_edge i (i + 1) 0.05 g1) [0..<n - 1] g"

definition similarity_graph :: "pystr list \<Rightarrow> (nat \<Rightarrow> nat \<Rightarrow> real) \<Rightarrow> graph" where
  "similarity_graph titles sim =
     (let g0 = fold (\<lambda>(idx, t) g. add_node idx t g) (enumerate 0 titles) empty_graph;
          g1 = threshold_edges (length titles) sim g0
      in if number_of_edges g1 = 0 then chain_edges (length titles) g1 else g1)"

text \<open>
  \<open>paper_network_figure\<close> up to the graph it draws (the layout and the drawing are left
  out). The TF-IDF vectoriser and the cosine similarity of scikit-learn are a parameter
  \<open>cosine_tfidf\<close>: from the abstracts to the similarity matrix, or to the exception raised.
\<close>

datatype figure = EmptyFigure pystr | NetworkFigure graph

definition paper_network_figure ::
  "(pystr list \<Rightarrow> exn + (nat \<Rightarrow> nat \<Rightarrow> real)) \<Rightarrow> PaperAnalysis list \<Rightarrow> exn + figure" where
  "paper_network_figure cosine_tfidf analyses =
     (if analyses = [] then Inr (EmptyFigure (str ''No papers available for network graph.''))
      else if length analyses = 1
        then Inr (EmptyFigure (str ''At least 2 papers are required to build a network graph.''))
      else
        (let abstracts = map (\<lambda>a. abstract (paper a)) analyses;
             titles = map (\<lambda>a. title (paper a)) analyses
         in then_do (cosine_tfidf abstracts) (\<lambda>sim.
              Inr (NetworkFigure (similarity_graph titles sim)))))"

text \<open>
  For the statements about the graph: adjacency, reachability along edges, connectedness
  and isolated nodes; an analysis record of a paper with a given title and abstract; and
  the similarity matrix of abstracts that are pairwise either equal (similarity 1) or
  without a common term (similarity 0).
\<close>

definition adjacent :: "graph \<Rightarrow> nat \<Rightarrow> nat \<Rightarrow> bool" where
  "adjacent g u v = ((u, v) \<in> fst ` set (edges g) \<or> (v, u) \<in> fst ` set (edges g))"

definition reachable :: "graph \<Rightarrow> nat \<Rightarrow> nat \<Rightarrow> bool" where
  "reachable g u v = ((u, v) \<in> {(a, b). adjacent g a b}\<^sup>*)"

definition connected_graph :: "graph \<Rightarrow> bool" where
  "connected_graph g =
     (\<forall>u \<in> fst ` set (node_labels g). \<forall>v \<in> fst ` set (node_labels g). reachable g u v)"

definition isolated :: "graph \<Rightarrow> nat \<Rightarrow> bool" where
  "isolated g u = (\<forall>v. \<not> adjacent g u v)"

definition example_analysis :: "string \<Rightarrow> string \<Rightarrow> PaperAnalysis" where
  "example_analysis t a =
     \<lparr>paper = example_paper t a None, insights = [], literature_review = [],
      method_used = [], contributions = [], limitations = [], future_work = [],
      citations = [], research_gap = []\<rparr>"

definition equal_or_disjoint :: "pystr list \<Rightarrow> exn + (nat \<Rightarrow> nat \<Rightarrow> real)" where
  "equal_or_disjoint abstracts = Inr (\<lambda>i j. if abstracts ! i = abstracts ! j then 1 else 0)"

section \<open>Properties of string literals\<close>

lemma str_eq_iff: "str a = str b \<longleftrightarrow> a = b"
  by (simp add: str_def inj_of_char)

section \<open>Properties of deduplication\<close>

lemma dedupe_loop_snoc:
  "dedupe_loop U g (xs @ [x]) seen out =
     (if normalize_title U (g x) \<in> seen \<union> (\<lambda>p. normalize_title U (g p)) ` set xs
      then dedupe_loop U g xs seen out else dedupe_loop U g xs seen out @ [x])"
  by (induction xs arbitrary: seen out) (auto simp: Let_def)

lemma dedupe_snoc:
  "dedupe_by_title U (xs @ [x]) g =
     (if normalize_title U (g x) \<in> (\<lambda>p. normalize_title U (g p)) ` set xs
      then dedupe_by_title U xs g else dedupe_by_title U xs g @ [x])"
  unfolding dedupe_by_title_def by (simp only: dedupe_loop_snoc Un_empty_left)

lemma dedupe_nil: "dedupe_by_title U [] g = []"
  by (simp add: dedupe_by_title_def)

lemma dedupe_subseq: "subseq (dedupe_by_title U xs g) xs"
proof (induction xs rule: rev_induct)
  case Nil
  show ?case by (simp add: dedupe_nil)
next
  case (snoc x xs)
  then show ?case
    by (auto simp: dedupe_snoc intro: subseq_order.trans)
qed

lemma dedupe_keys:
  "(\<lambda>p. normalize_title U (g p)) ` set (dedupe_by_title U xs g)
     = (\<lambda>p. normalize_title U (g p)) ` set xs"
proof (induction xs rule: rev_induct)
  case Nil
  show ?case by (simp add: dedupe_nil)
next
  case (snoc x xs)
  then show ?case
    by (auto simp: dedupe_snoc)
qed

lemma dedupe_distinct: "distinct (map (\<lambda>p. normalize_title U (g p)) (dedupe_by_title U xs g))"
proof (induction xs rule: rev_induct)
  case Nil
  show ?case by (simp add: dedupe_nil)
next
  case (snoc x xs)
  then show ?case
    using dedupe_keys [of U g xs] by (auto simp: dedupe_snoc)
qed

lemma dedupe_first_per_key:
  "filter (\<lambda>p. normalize_title U (g p) = k) (dedupe_by_title U xs g)
     = take 1 (filter (\<lambda>p. normalize_title U (g p) = k) xs)"
proof (induction xs rule: rev_induct)
  case Nil
  show ?case by (simp add: dedupe_nil)
next
  case (snoc x xs)
  show ?case
  proof (cases "normalize_title U (g x) = k")
    case False
    then show ?thesis using snoc by (simp add: dedupe_snoc)
  next
    case True
    show ?thesis
    proof (cases "k \<in> (\<lambda>p. normalize_title U (g p)) ` set xs")
      case seen: True
      then have "filter (\<lambda>p. normalize_title U (g p) = k) xs \<noteq> []"
        by (auto simp: filter_empty_conv)
      then show ?thesis using snoc True seen
        by (cases "filter (\<lambda>p. normalize_title U (g p) = k) xs") (auto simp: dedupe_snoc)
    next
      case fresh: False
      then have "filter (\<lambda>p. normalize_title U (g p) = k) xs = []"
        by (auto simp: filter_empty_conv)
      then show ?thesis using snoc True fresh
        by (auto simp: dedupe_snoc)
    qed
  qed
qed

lemma normalize_deep_learning_1:
  "normalize_title U (str ''Deep Learning for X'') = str ''deep learning for x''"
  by code_simp

lemma normalize_deep_learning_2:
  "normalize_title U (str ''deep learning for x!!'') = str ''deep learning for x''"
  by code_simp

lemma normalize_title_chars: "set (normalize_title U t) \<subseteq> {c. title_char c}"
  by (auto simp: normalize_title_def)

lemma collapse_ws_run:
  assumes "ws \<noteq> []" "\<forall>c \<in> set ws. py_isspace U c" "s = [] \<or> \<not> py_isspace U (hd s)"
  shows "collapse_ws U (ws @ s) = 32 # collapse_ws U s"
proof -
  obtain w rest where ws: "ws = w # rest" using assms(1) by (cases ws) auto
  have "dropWhile (py_isspace U) (rest @ s) = dropWhile (py_isspace U) s"
    using assms(2) by (simp add: ws)
  also have "\<dots> = s"
    using assms(3) by (cases s) auto
  finally show ?thesis
    using assms(2) by (simp add: ws)
qed

lemma strip_surrounded:
  assumes "\<forall>c \<in> set lead. py_isspace U c" "\<forall>c \<in> set trail. py_isspace U c"
    and "s = [] \<or> (\<not> py_isspace U (hd s) \<and> \<not> py_isspace U (last s))"
  shows "strip U (lead @ s @ trail) = s"
proof (cases "s = []")
  case True
  have l: "dropWhile (py_isspace U) (lead @ s @ trail) = []"
    using assms(1,2) True by auto
  show ?thesis
    unfolding strip_def lstrip_def rstrip_def l using True by simp
next
  case False
  with assms(3) have hl: "\<not> py_isspace U (hd s)" "\<not> py_isspace U (last s)" by auto
  have l: "dropWhile (py_isspace U) (lead @ s @ trail) = s @ trail"
    using assms(1) False hl(1) by (cases s) simp_all
  have "dropWhile (py_isspace U) (rev trail @ rev s) = dropWhile (py_isspace U) (rev s)"
    by (rule dropWhile_append2) (use assms(2) in auto)
  also have "\<dots> = rev s"
    using False hl(2) by (cases "rev s") (auto simp: hd_rev)
  finally show ?thesis
    by (simp add: strip_def lstrip_def rstrip_def l)
qed

text \<open>
  Claim C3, as stated, fails. Normalised in the order of the claim's words (lower case,
  only letters, digits and spaces kept, whitespace collapsed), the titles
  "Deep Learning - A Survey" and "Deep Learning A Survey" are equal. The code collapses
  the whitespace before it removes the dash, so its keys differ (the first keeps two
  blanks) and both papers are kept.
\<close>

theorem dedupe_by_title_spec_counterexample:
  "spec_normalize_title plain (str ''Deep Learning - A Survey'')
     = spec_normalize_title plain (str ''Deep Learning A Survey'')
   \<and> normalize_title plain (str ''Deep Learning - A Survey'') = str ''deep learning  a survey''
   \<and> normalize_title plain (str ''Deep Learning A Survey'') = str ''deep learning a survey''
   \<and> dedupe_by_title plain
        [example_paper ''Deep Learning - A Survey'' [] None,
         example_paper ''Deep Learning A Survey'' [] None] title
       = [example_paper ''Deep Learning - A Survey'' [] None,
          example_paper ''Deep Learning A Survey'' [] None]"
  by code_simp

text \<open>
  Claim C3, amended. The key of an item is \<open>normalize_title\<close> of what the key function
  returns: the title in lower case and without surrounding whitespace, then every run of
  whitespace replaced by one space, then every character other than \<open>a-z\<close>, \<open>0-9\<close> and
  the space removed - in this order, so that the key of "Deep Learning - A Survey" holds
  two adjacent spaces. \<open>dedupe_by_title\<close> reads the items in order and keeps an item
  exactly when its key has not been seen on an earlier item. So the output is a
  subsequence of the input (first-seen order), it holds for every key the first item
  with that key and no other, no two output items have equal keys, and the papers titled
  "Deep Learning for X" and "deep learning for x!!" yield the first one only.
\<close>

theorem dedupe_by_title_first_seen:
  "normalize_title U t = filter title_char (collapse_ws U (strip U (lower U t)))
   \<and> ((\<forall>c \<in> set lead. py_isspace U c) \<and> (\<forall>c \<in> set trail. py_isspace U c)
        \<and> (s = [] \<or> (\<not> py_isspace U (hd s) \<and> \<not> py_isspace U (last s)))
       \<longrightarrow> strip U (lead @ s @ trail) = s)
   \<and> collapse_ws U [] = []
   \<and> (\<not> py_isspace U c \<longrightarrow> collapse_ws U (c # s) = c # collapse_ws U s)
   \<and> (ws \<noteq> [] \<and> (\<forall>c \<in> set ws. py_isspace U c) \<and> (s = [] \<or> \<not> py_isspace U (hd s))
       \<longrightarrow> collapse_ws U (ws @ s) = 32 # collapse_ws U s)
   \<and> normalize_title U (str ''  Deep'' @ [9, 10] @ str ''Learning:   A-Z 101 '')
       = str ''deep learning az 101''
   \<and> normalize_title U (str ''Deep Learning - A Survey'') = str ''deep learning  a survey''
   \<and> normalize_title U (str ''Az09 /:@[`{'') = str ''az09 ''
   \<and> dedupe_by_title U [] g = []
   \<and> dedupe_by_title U (pre @ [x]) g =
       (if normalize_title U (g x) \<in> (\<lambda>p. normalize_title U (g p)) ` set pre
        then dedupe_by_title U pre g else dedupe_by_title U pre g @ [x])
   \<and> subseq (dedupe_by_title U items g) items
   \<and> distinct (map (\<lambda>p. normalize_title U (g p)) (dedupe_by_title U items g))
   \<and> filter (\<lambda>p. normalize_title U (g p) = k) (dedupe_by_title U items g)
       = take 1 (filter (\<lambda>p. normalize_title U (g p) = k) items)
   \<and> dedupe_by_title U
        [p\<lparr>title := str ''Deep Learning for X''\<rparr>, q\<lparr>title := str ''deep learning for x!!''\<rparr>]
        title
       = [p\<lparr>title := str ''Deep Learning for X''\<rparr>]"
proof (intro conjI impI)
  show "normalize_title U t = filter title_char (collapse_ws U (strip U (lower U t)))"
    by (simp add: normalize_title_def)
next
  assume "(\<forall>c \<in> set lead. py_isspace U c) \<and> (\<forall>c \<in> set trail. py_isspace U c)
        \<and> (s = [] \<or> (\<not> py_isspace U (hd s) \<and> \<not> py_isspace U (last s)))"
  then show "strip U (lead @ s @ trail) = s"
    by (intro strip_surrounded) simp_all
next
  show "collapse_ws U [] = []" by simp
next
  assume "\<not> py_isspace U c"
  then show "collapse_ws U (c # s) = c # collapse_ws U s" by simp
next
  assume "ws \<noteq> [] \<and> (\<forall>c \<in> set ws. py_isspace U c) \<and> (s = [] \<or> \<not> py_isspace U (hd s))"
  then show "collapse_ws U (ws @ s) = 32 # collapse_ws U s"
    by (intro collapse_ws_run) simp_all
next
  show "normalize_title U (str ''  Deep'' @ [9, 10] @ str ''Learning:   A-Z 101 '')
       = str ''deep learning az 101''"
    by code_simp
next
  show "normalize_title U (str ''Deep Learning - A Survey'') = str ''deep learning  a survey''"
    by code_simp
next
  show "normalize_title U (str ''Az09 /:@[`{'') = str ''az09 ''"
    by code_simp
next
  show "dedupe_by_title U
        [p\<lparr>title := str ''Deep Learning for X''\<rparr>, q\<lparr>title := str ''deep learning for x!!''\<rparr>]
        title
       = [p\<lparr>title := str ''Deep Learning for X''\<rparr>]"
    by (simp add: dedupe_by_title_def normalize_deep_learning_1 normalize_deep_learning_2)
qed (rule dedupe_nil dedupe_snoc dedupe_subseq dedupe_distinct dedupe_first_per_key)+

theorem dedupe_by_title_first_seen_witness:
  "\<not> py_isspace plain 97
   \<and> py_isspace plain 9 \<and> py_isspace plain 32
   \<and> collapse_ws plain [97, 9, 32, 98] = [97, 32, 98]
   \<and> strip plain [32, 97, 9, 98, 10] = [97, 9, 98]
   \<and> dedupe_by_title plain
        [example_paper ''Deep Learning for X'' [] (Some 2020),
         example_paper ''deep learning for x!!'' [] None,
         example_paper ''Graphs'' [] None] title
      = [example_paper ''Deep Learning for X'' [] (Some 2020), example_paper ''Graphs'' [] None]"
proof -
  have sp: "\<not> py_isspace plain 97" "py_isspace plain 9" "py_isspace plain 32"
    "py_isspace plain 10" "\<not> py_isspace plain 98"
    by (simp_all add: py_isspace_def)
  note inst1 = dedupe_by_title_first_seen
    [where U = plain and c = 97 and s = "[98]" and ws = "[9, 32]"
       and lead = "[32]" and trail = "[10]"
       and g = title and pre = "[]" and items = "[]" and k = "[]" and t = "[]"
       and x = "example_paper [] [] None"
       and p = "example_paper [] [] None" and q = "example_paper [] [] None"]
  note inst2 = dedupe_by_title_first_seen
    [where U = plain and c = 97 and s = "[9, 32, 98]" and ws = "[9, 32]"
       and lead = "[32]" and trail = "[10]"
       and g = title and pre = "[]" and items = "[]" and k = "[]" and t = "[]"
       and x = "example_paper [] [] None"
       and p = "example_paper [] [] None" and q = "example_paper [] [] None"]
  note inst3 = dedupe_by_title_first_seen
    [where U = plain and c = 98 and s = "[]" and ws = "[9, 32]"
       and lead = "[32]" and trail = "[10]"
       and g = title and pre = "[]" and items = "[]" and k = "[]" and t = "[]"
       and x = "example_paper [] [] None"
       and p = "example_paper [] [] None" and q = "example_paper [] [] None"]
  note inst4 = dedupe_by_title_first_seen
    [where U = plain and c = 97 and s = "[97, 9, 98]" and ws = "[9, 32]"
       and lead = "[32]" and trail = "[10]"
       and g = title
       and pre = "[example_paper ''Deep Learning for X'' [] (Some 2020),
                   example_paper ''deep learning for x!!'' [] None]"
       and items = "[]" and k = "[]" and t = "[]"
       and x = "example_paper ''Graphs'' [] None"
       and p = "example_paper [] [] (Some 2020)" and q = "example_paper [] [] None"]
  have c3: "collapse_ws plain [98] = [98]"
    using inst3 sp by simp
  have c1: "collapse_ws plain ([9, 32] @ [98]) = 32 # collapse_ws plain [98]"
    using inst1 sp by simp
  have c2: "collapse_ws plain (97 # [9, 32, 98]) = 97 # collapse_ws plain [9, 32, 98]"
    using inst2 sp by blast
  have c: "collapse_ws plain [97, 9, 32, 98] = [97, 32, 98]"
    using c1 c2 c3 by simp
  have st: "strip plain ([32] @ [97, 9, 98] @ [10]) = [97, 9, 98]"
    using inst4 sp by simp
  have two: "dedupe_by_title plain
        [example_paper ''Deep Learning for X'' [] (Some 2020),
         example_paper ''deep learning for x!!'' [] None] title
      = [example_paper ''Deep Learning for X'' [] (Some 2020)]"
    using inst4 by (simp add: example_paper_def)
  have n3: "normalize_title plain (str ''Graphs'') = str ''graphs''"
    by code_simp
  have ti: "title (example_paper t a y) = str t" for t a y
    by (simp add: example_paper_def)
  have n12: "normalize_title plain (str ''Deep Learning for X'') = str ''deep learning for x''"
    "normalize_title plain (str ''deep learning for x!!'') = str ''deep learning for x''"
    by (rule normalize_deep_learning_1 normalize_deep_learning_2)+
  have ne: "str ''graphs'' \<noteq> str ''deep learning for x''"
    by (simp add: str_def)
  have three: "dedupe_by_title plain
        ([example_paper ''Deep Learning for X'' [] (Some 2020),
         example_paper ''deep learning for x!!'' [] None] @ [example_paper ''Graphs'' [] None]) title
      = [example_paper ''Deep Learning for X'' [] (Some 2020)] @ [example_paper ''Graphs'' [] None]"
    using inst4 [THEN conjunct2, THEN conjunct2, THEN conjunct2, THEN conjunct2,
                 THEN conjunct2, THEN conjunct2, THEN conjunct2, THEN conjunct2, THEN conjunct2,
                 THEN conjunct1]
    by (simp add: two n3 n12 ne ti)
  from sp c st three show ?thesis by simp
qed











section \<open>Properties of the year filter\<close>

lemma year_loop_filter:
  "year_loop ps s e acc =
     acc @ filter (\<lambda>p. case year p of None \<Rightarrow> False
       | Some y \<Rightarrow> (case s of None \<Rightarrow> True | Some a \<Rightarrow> a \<le> y)
                 \<and> (case e of None \<Rightarrow> True | Some b \<Rightarrow> y \<le> b)) ps"
  by (induction ps arbitrary: acc) (auto split: option.splits)

text \<open>
  Claim C4. With both bounds given, the year filter keeps exactly the papers that have a
  year \<open>y\<close> with \<open>s \<le> y \<le> e\<close>, in their order; with no bound given it returns the list
  unchanged, papers without a year included; and as soon as one bound is given, every
  surviving paper has a year.
\<close>

theorem filter_by_year_bounds:
  "(\<forall>p \<in> set (filter_by_year papers (Some s) (Some e)).
      \<exists>y. year p = Some y \<and> s \<le> y \<and> y \<le> e)
   \<and> filter_by_year papers (Some s) (Some e)
       = filter (\<lambda>p. \<exists>y. year p = Some y \<and> s \<le> y \<and> y \<le> e) papers
   \<and> filter_by_year papers None None = papers
   \<and> (start_year \<noteq> None \<or> end_year \<noteq> None \<longrightarrow>
        (\<forall>p \<in> set (filter_by_year papers start_year end_year). year p \<noteq> None))"
proof -
  have eq: "filter_by_year papers (Some s) (Some e)
       = filter (\<lambda>p. \<exists>y. year p = Some y \<and> s \<le> y \<and> y \<le> e) papers"
    unfolding filter_by_year_def year_loop_filter
    by (auto intro!: filter_cong split: option.splits)
  have none: "filter_by_year papers None None = papers"
    by (simp add: filter_by_year_def)
  have dropped: "start_year \<noteq> None \<or> end_year \<noteq> None \<longrightarrow>
        (\<forall>p \<in> set (filter_by_year papers start_year end_year). year p \<noteq> None)"
    unfolding filter_by_year_def year_loop_filter
    by (auto split: option.splits)
  from eq have "\<forall>p \<in> set (filter_by_year papers (Some s) (Some e)).
      \<exists>y. year p = Some y \<and> s \<le> y \<and> y \<le> e"
    by simp
  with eq none dropped show ?thesis by blast
qed

theorem filter_by_year_bounds_witness:
  "filter_by_year
     [example_paper ''A'' [] (Some 2019), example_paper ''B'' [] None,
      example_paper ''C'' [] (Some 2025)] (Some 2018) (Some 2020)
   = [example_paper ''A'' [] (Some 2019)]
   \<and> filter_by_year
       [example_paper ''A'' [] (Some 2019), example_paper ''B'' [] None] None None
     = [example_paper ''A'' [] (Some 2019), example_paper ''B'' [] None]"
  using filter_by_year_bounds
    [of "[example_paper ''A'' [] (Some 2019), example_paper ''B'' [] None,
          example_paper ''C'' [] (Some 2025)]" 2018 2020 "Some 2018" None]
    filter_by_year_bounds
    [of "[example_paper ''A'' [] (Some 2019), example_paper ''B'' [] None]" 0 0 None None]
  by (simp add: example_paper_def)

section \<open>Properties of the retrying request helper\<close>

lemma request_loop_fail_step:
  assumes "tr trace req = Raises e" "is_RequestException e" "int attempt < attempts"
  shows "request_loop tr req attempts attempt trace =
     (if int attempt < attempts - 1
      then request_loop tr req attempts (Suc attempt)
             (trace @ [Get req, Sleep (0.6 * (real attempt + 1))])
      else (trace @ [Get req], Inr JNull))"
  using assms by (subst request_loop.simps) (simp add: Let_def)

lemma request_loop_done:
  "\<not> int attempt < attempts \<Longrightarrow> request_loop tr req attempts attempt trace = (trace, Inr JNull)"
  by (subst request_loop.simps) simp

lemma request_loop_always_failing:
  assumes "always_failing tr"
  shows "snd (request_loop tr req attempts attempt trace) = Inr JNull \<and>
         attempts_made (fst (request_loop tr req attempts attempt trace))
           = attempts_made trace + nat (attempts - int attempt)"
proof (induction "nat (attempts - int attempt)" arbitrary: attempt trace)
  case 0
  then have "\<not> int attempt < attempts" by simp
  then show ?case using 0 by (simp add: request_loop_done)
next
  case (Suc k)
  then have lt: "int attempt < attempts" by linarith
  obtain e where e: "tr trace req = Raises e" "is_RequestException e"
    using assms unfolding always_failing_def by blast
  note step = request_loop_fail_step [where tr = tr and trace = trace and req = req, OF e lt]
  show ?case
  proof (cases "int attempt < attempts - 1")
    case True
    from Suc(2) have k: "k = nat (attempts - int (Suc attempt))" by simp
    have n: "nat (attempts - int attempt) = Suc (nat (attempts - int (Suc attempt)))"
      using True by simp
    show ?thesis
      using Suc(1) [OF k, of "trace @ [Get req, Sleep (0.6 * (real attempt + 1))]"] True
      by (simp add: step n attempts_made_def)
  next
    case False
    with lt have "nat (attempts - int attempt) = 1" by simp
    with False show ?thesis by (simp add: step attempts_made_def)
  qed
qed

lemma request_three_failures:
  assumes "always_failing tr"
  shows "request_json_with_retries tr u ps 3 tmo trace =
    (let req = \<lparr>url = u, params = ps, timeout = tmo,
        headers = [(''User-Agent'', ''ScholarSync/1.0 (+local-upload-enrichment)'')]\<rparr>
     in (trace @ [Get req, Sleep 0.6, Get req, Sleep 1.2, Get req], Inr JNull))"
proof -
  define req where "req = \<lparr>url = u, params = ps, timeout = tmo,
        headers = [(''User-Agent'', ''ScholarSync/1.0 (+local-upload-enrichment)'')]\<rparr>"
  define t1 where "t1 = trace @ [Get req, Sleep 0.6]"
  define t2 where "t2 = t1 @ [Get req, Sleep 1.2]"
  obtain e0 where e0: "tr trace req = Raises e0" "is_RequestException e0"
    using assms unfolding always_failing_def by blast
  obtain e1 where e1: "tr t1 req = Raises e1" "is_RequestException e1"
    using assms unfolding always_failing_def by blast
  obtain e2 where e2: "tr t2 req = Raises e2" "is_RequestException e2"
    using assms unfolding always_failing_def by blast
  have s0: "request_loop tr req 3 0 trace = request_loop tr req 3 (Suc 0) t1"
    using request_loop_fail_step [where tr = tr and trace = trace and req = req, OF e0, of 0 3]
    by (simp add: t1_def)
  have s1: "request_loop tr req 3 (Suc 0) t1 = request_loop tr req 3 (Suc (Suc 0)) t2"
    using request_loop_fail_step [where tr = tr and trace = t1 and req = req, OF e1, of "Suc 0" 3]
    by (simp add: t2_def)
  have s2: "request_loop tr req 3 (Suc (Suc 0)) t2 = (t2 @ [Get req], Inr JNull)"
    using request_loop_fail_step
      [where tr = tr and trace = t2 and req = req, OF e2, of "Suc (Suc 0)" 3]
    by simp
  have "request_loop tr req 3 0 trace = (t2 @ [Get req], Inr JNull)"
    by (simp only: s0 s1 s2)
  then show ?thesis
    unfolding request_json_with_retries_def Let_def req_def [symmetric]
    by (simp add: t1_def t2_def)
qed

text \<open>
  Claim C2. On a transport where every request fails with a timeout or another transport
  exception, \<open>_request_json_with_retries\<close> called with \<open>attempts = 3\<close> issues exactly three
  requests (sleeping 0.6 s and 1.2 s between them), then returns \<open>None\<close>; it does not
  raise. For any number of attempts the result is \<open>None\<close> after that number of requests.
\<close>

theorem request_json_with_retries_exhausted:
  assumes "always_failing tr"
  shows "request_json_with_retries tr u ps 3 tmo trace =
           (trace @ [Get \<lparr>url = u, params = ps, timeout = tmo,
                      headers = [(''User-Agent'', ''ScholarSync/1.0 (+local-upload-enrichment)'')]\<rparr>,
                     Sleep 0.6,
                     Get \<lparr>url = u, params = ps, timeout = tmo,
                      headers = [(''User-Agent'', ''ScholarSync/1.0 (+local-upload-enrichment)'')]\<rparr>,
                     Sleep 1.2,
                     Get \<lparr>url = u, params = ps, timeout = tmo,
                      headers = [(''User-Agent'', ''ScholarSync/1.0 (+local-upload-enrichment)'')]\<rparr>],
            Inr JNull)
         \<and> attempts_made (fst (request_json_with_retries tr u ps 3 tmo trace))
             = attempts_made trace + 3
         \<and> snd (request_json_with_retries tr u ps attempts tmo trace) = Inr JNull
         \<and> attempts_made (fst (request_json_with_retries tr u ps attempts tmo trace))
             = attempts_made trace + nat attempts"
  using request_three_failures [OF assms, of u ps tmo trace]
    request_loop_always_failing [OF assms,
      of "\<lparr>url = u, params = ps, timeout = tmo,
           headers = [(''User-Agent'', ''ScholarSync/1.0 (+local-upload-enrichment)'')]\<rparr>"
         attempts 0 trace]
  by (simp add: Let_def attempts_made_def request_json_with_retries_def)

theorem request_json_with_retries_exhausted_witness:
  "always_failing (\<lambda>h r. Raises Timeout)
   \<and> snd (request_json_with_retries (\<lambda>h r. Raises Timeout) (str ''https://example.org'') [] 3 14 [])
       = Inr JNull
   \<and> attempts_made
       (fst (request_json_with_retries (\<lambda>h r. Raises Timeout) (str ''https://example.org'') [] 3 14 []))
       = 3"
proof -
  have h: "always_failing (\<lambda>h r. Raises Timeout)"
    by (simp add: always_failing_def is_RequestException_def)
  show ?thesis
    using h request_json_with_retries_exhausted
      [OF h, of "str ''https://example.org''" "[]" 14 "[]" 3]
    by (simp add: attempts_made_def)
qed

section \<open>Properties of section extraction\<close>

lemma dropWhile_has_rest:
  "(\<exists>c \<in> set (dropWhile P s). \<not> P c) \<longleftrightarrow> (\<exists>c \<in> set s. \<not> P c)"
  by (induction s) auto

lemma dropWhile_nonempty_rest: "dropWhile P s \<noteq> [] \<longleftrightarrow> (\<exists>c \<in> set s. \<not> P c)"
  by (induction s) auto

lemma strip_nonempty_iff: "strip U s \<noteq> [] \<longleftrightarrow> (\<exists>c \<in> set s. \<not> py_isspace U c)"
  unfolding strip_def lstrip_def rstrip_def
  by (simp only: rev_is_Nil_conv dropWhile_nonempty_rest set_rev dropWhile_has_rest)

lemma strip_has_text: "strip U s \<noteq> [] \<Longrightarrow> \<exists>c \<in> set (strip U s). \<not> py_isspace U c"
  unfolding strip_def lstrip_def rstrip_def
  by (simp only: rev_is_Nil_conv dropWhile_nonempty_rest set_rev dropWhile_has_rest)

lemma sentence_end_not_space: "sentence_end c \<Longrightarrow> \<not> py_isspace U c"
  by (auto simp: sentence_end_def py_isspace_def)

lemma re_split_keeps_text:
  "\<exists>c \<in> set (cur @ s). \<not> py_isspace U c \<Longrightarrow>
   \<exists>ch \<in> set (re_split_sentences U cur s). \<exists>c \<in> set ch. \<not> py_isspace U c"
proof (induction U cur s rule: re_split_sentences.induct)
  case (1 U cur)
  then show ?case by simp
next
  case (2 U cur c cs)
  show ?case
  proof (cases "py_isspace U c \<and> cur \<noteq> [] \<and> sentence_end (last cur)")
    case True
    then have "last cur \<in> set cur" "\<not> py_isspace U (last cur)"
      by (auto simp: sentence_end_not_space)
    with True show ?thesis by auto
  next
    case False
    then show ?thesis using 2 by auto
  qed
qed

lemma split_sentences_empty_iff: "split_sentences U t = [] \<longleftrightarrow> strip U t = []"
proof
  assume "strip U t = []"
  then show "split_sentences U t = []" by (simp add: split_sentences_def)
next
  assume e: "split_sentences U t = []"
  show "strip U t = []"
  proof (rule ccontr)
    assume ne: "strip U t \<noteq> []"
    then have "\<exists>c \<in> set ([] @ strip U t). \<not> py_isspace U c"
      using strip_has_text by simp
    then obtain ch where ch: "ch \<in> set (re_split_sentences U [] (strip U t))"
      "\<exists>c \<in> set ch. \<not> py_isspace U c"
      using re_split_keeps_text by blast
    then have "strip U ch \<noteq> []" by (simp add: strip_nonempty_iff)
    with ch(1) ne have "split_sentences U t \<noteq> []"
      by (auto simp: split_sentences_def Let_def filter_empty_conv)
    with e show False by simp
  qed
qed

lemma extract_no_sentences:
  "split_sentences U t = [] \<Longrightarrow>
   SectionExtractor_extract U t =
     Inr [(''insights'', str ''Not enough information in abstract.''),
          (''literature_review'', str ''Not enough information in abstract.''),
          (''method_used'', str ''Not enough information in abstract.''),
          (''contributions'', str ''Not enough information in abstract.''),
          (''limitations'', str ''Not enough information in abstract.''),
          (''future_work'', str ''Not enough information in abstract.''),
          (''research_gap'', str ''Not enough information in abstract.'')]"
  by (simp add: SectionExtractor_extract_def sections_def NOT_ENOUGH_def)

lemma split_sentences_Nil: "split_sentences U [] = []"
  by (simp add: split_sentences_def strip_def lstrip_def rstrip_def)

text \<open>
  Claim C6. When the text yields no sentence - which is the case exactly when it is empty
  or holds only whitespace - \<open>extract\<close> returns at once, before any call of
  \<open>_extract_section_text\<close>, the dict whose seven values all are the marker
  "Not enough information in abstract."; in particular for the empty string.
\<close>

theorem extract_insufficient_information:
  "(split_sentences U t = [] \<longrightarrow>
      SectionExtractor_extract U t = Inr [(k, NOT_ENOUGH). k \<leftarrow> sections]
      \<and> (\<forall>kv \<in> set [(k, NOT_ENOUGH). k \<leftarrow> sections]. snd kv = NOT_ENOUGH))
   \<and> (split_sentences U t = [] \<longleftrightarrow> strip U t = [])
   \<and> SectionExtractor_extract U [] =
       Inr [(''insights'', str ''Not enough information in abstract.''),
            (''literature_review'', str ''Not enough information in abstract.''),
            (''method_used'', str ''Not enough information in abstract.''),
            (''contributions'', str ''Not enough information in abstract.''),
            (''limitations'', str ''Not enough information in abstract.''),
            (''future_work'', str ''Not enough information in abstract.''),
            (''research_gap'', str ''Not enough information in abstract.'')]"
proof (intro conjI impI)
  assume "split_sentences U t = []"
  then show "SectionExtractor_extract U t = Inr [(k, NOT_ENOUGH). k \<leftarrow> sections]"
    by (simp add: SectionExtractor_extract_def)
next
  show "\<forall>kv \<in> set [(k, NOT_ENOUGH). k \<leftarrow> sections]. snd kv = NOT_ENOUGH"
    by auto
next
  show "split_sentences U t = [] \<longleftrightarrow> strip U t = []"
    by (rule split_sentences_empty_iff)
next
  show "SectionExtractor_extract U [] =
       Inr [(''insights'', str ''Not enough information in abstract.''),
            (''literature_review'', str ''Not enough information in abstract.''),
            (''method_used'', str ''Not enough information in abstract.''),
            (''contributions'', str ''Not enough information in abstract.''),
            (''limitations'', str ''Not enough information in abstract.''),
            (''future_work'', str ''Not enough information in abstract.''),
            (''research_gap'', str ''Not enough information in abstract.'')]"
    by (rule extract_no_sentences [OF split_sentences_Nil])
qed

theorem extract_insufficient_information_witness:
  "split_sentences plain (str ''  '') = []
   \<and> SectionExtractor_extract plain (str ''  '') =
       Inr [(''insights'', str ''Not enough information in abstract.''),
            (''literature_review'', str ''Not enough information in abstract.''),
            (''method_used'', str ''Not enough information in abstract.''),
            (''contributions'', str ''Not enough information in abstract.''),
            (''limitations'', str ''Not enough information in abstract.''),
            (''future_work'', str ''Not enough information in abstract.''),
            (''research_gap'', str ''Not enough information in abstract.'')]"
proof -
  have h: "split_sentences plain (str ''  '') = []" by code_simp
  from extract_insufficient_information [where U = plain and t = "str ''  ''"] h
  have "SectionExtractor_extract plain (str ''  '') = Inr [(k, NOT_ENOUGH). k \<leftarrow> sections]"
    by blast
  with h show ?thesis by (simp add: sections_def NOT_ENOUGH_def)
qed

lemma extract_section_text_total:
  assumes "map_of SECTION_KEYWORDS section = Some kws" "sentences \<noteq> []"
  shows "\<exists>r. extract_section_text U sentences section top_k = Inr r"
  using assms by (simp add: extract_section_text_def Let_def)

lemma section_keywords_present:
  "\<exists>kws. map_of SECTION_KEYWORDS ''literature_review'' = Some kws"
  "\<exists>kws. map_of SECTION_KEYWORDS ''method_used'' = Some kws"
  "\<exists>kws. map_of SECTION_KEYWORDS ''contributions'' = Some kws"
  "\<exists>kws. map_of SECTION_KEYWORDS ''limitations'' = Some kws"
  "\<exists>kws. map_of SECTION_KEYWORDS ''future_work'' = Some kws"
  by (simp_all add: SECTION_KEYWORDS_def)

lemma extract_with_sentences:
  assumes "split_sentences U t \<noteq> []"
    and "extract_section_text U (split_sentences U t) ''literature_review'' 2 = Inr lr"
    and "extract_section_text U (split_sentences U t) ''method_used'' 3 = Inr mu"
    and "extract_section_text U (split_sentences U t) ''contributions'' 2 = Inr co"
    and "extract_section_text U (split_sentences U t) ''limitations'' 2 = Inr li"
    and "extract_section_text U (split_sentences U t) ''future_work'' 2 = Inr fw"
  shows "SectionExtractor_extract U t =
       Inr [(''insights'', build_insights (split_sentences U t) mu co),
            (''literature_review'', lr),
            (''method_used'', mu),
            (''contributions'', co),
            (''limitations'', li),
            (''future_work'',
               if sublist (str ''Not explicitly stated'') fw then derive_future_work li else fw),
            (''research_gap'',
               derive_research_gap lr li
                 (if sublist (str ''Not explicitly stated'') fw then derive_future_work li else fw))]"
  using assms(1)
  by (simp only: SectionExtractor_extract_def Let_def assms(2-6) then_do_def
      sum.case if_False)

lemma extract_section_texts:
  assumes "split_sentences U t \<noteq> []"
  obtains lr mu co li fw where
    "extract_section_text U (split_sentences U t) ''literature_review'' 2 = Inr lr"
    "extract_section_text U (split_sentences U t) ''method_used'' 3 = Inr mu"
    "extract_section_text U (split_sentences U t) ''contributions'' 2 = Inr co"
    "extract_section_text U (split_sentences U t) ''limitations'' 2 = Inr li"
    "extract_section_text U (split_sentences U t) ''future_work'' 2 = Inr fw"
proof -
  obtain lr where lr: "extract_section_text U (split_sentences U t) ''literature_review'' 2 = Inr lr"
    using extract_section_text_total [OF _ assms] section_keywords_present(1) by meson
  obtain mu where mu: "extract_section_text U (split_sentences U t) ''method_used'' 3 = Inr mu"
    using extract_section_text_total [OF _ assms] section_keywords_present(2) by meson
  obtain co where co: "extract_section_text U (split_sentences U t) ''contributions'' 2 = Inr co"
    using extract_section_text_total [OF _ assms] section_keywords_present(3) by meson
  obtain li where li: "extract_section_text U (split_sentences U t) ''limitations'' 2 = Inr li"
    using extract_section_text_total [OF _ assms] section_keywords_present(4) by meson
  obtain fw where fw: "extract_section_text U (split_sentences U t) ''future_work'' 2 = Inr fw"
    using extract_section_text_total [OF _ assms] section_keywords_present(5) by meson
  from that [OF lr mu co li fw] show thesis .
qed

lemma extract_keys:
  "\<exists>d. SectionExtractor_extract U t = Inr d
       \<and> map fst d = [''insights'', ''literature_review'', ''method_used'', ''contributions'',
                      ''limitations'', ''future_work'', ''research_gap'']"
proof (cases "split_sentences U t = []")
  case True
  then show ?thesis by (simp add: extract_no_sentences)
next
  case False
  from extract_section_texts [OF False] obtain lr mu co li fw where
    "extract_section_text U (split_sentences U t) ''literature_review'' 2 = Inr lr"
    "extract_section_text U (split_sentences U t) ''method_used'' 3 = Inr mu"
    "extract_section_text U (split_sentences U t) ''contributions'' 2 = Inr co"
    "extract_section_text U (split_sentences U t) ''limitations'' 2 = Inr li"
    "extract_section_text U (split_sentences U t) ''future_work'' 2 = Inr fw" .
  from extract_with_sentences [OF False this] show ?thesis by simp
qed

lemma analyze_paper_total:
  "\<exists>a. analyze_paper U p = Inr a \<and> PaperAnalysis.citations a = citation_text p"
proof (cases "split_sentences U (abstract p) = []")
  case True
  from extract_no_sentences [OF True] show ?thesis
    by (simp add: analyze_paper_def then_do_def py_getitem_def)
next
  case False
  from extract_section_texts [OF False] obtain lr mu co li fw where
    "extract_section_text U (split_sentences U (abstract p)) ''literature_review'' 2 = Inr lr"
    "extract_section_text U (split_sentences U (abstract p)) ''method_used'' 3 = Inr mu"
    "extract_section_text U (split_sentences U (abstract p)) ''contributions'' 2 = Inr co"
    "extract_section_text U (split_sentences U (abstract p)) ''limitations'' 2 = Inr li"
    "extract_section_text U (split_sentences U (abstract p)) ''future_work'' 2 = Inr fw" .
  from extract_with_sentences [OF False this] show ?thesis
    by (simp add: analyze_paper_def then_do_def py_getitem_def)
qed

text \<open>
  Claim C9. For every text, \<open>SectionExtractor.extract\<close> returns (it raises nothing) a dict
  with exactly the keys insights, literature_review, method_used, contributions,
  limitations, future_work and research_gap, in this order; there is no key citations.
  The values are strings. The pipeline reads these seven keys and fills the citations
  field of the analysis from the paper's citation count.
\<close>

theorem extract_returns_seven_sections:
  "\<exists>d a. SectionExtractor_extract U t = Inr d
     \<and> map fst d = [''insights'', ''literature_review'', ''method_used'', ''contributions'',
                    ''limitations'', ''future_work'', ''research_gap'']
     \<and> map_of d ''citations'' = None
     \<and> analyze_paper U p = Inr a \<and> PaperAnalysis.citations a = citation_text p"
proof -
  obtain d where d: "SectionExtractor_extract U t = Inr d"
    "map fst d = [''insights'', ''literature_review'', ''method_used'', ''contributions'',
                  ''limitations'', ''future_work'', ''research_gap'']"
    using extract_keys by meson
  have "''citations'' \<notin> set (map fst d)"
    unfolding d(2) by simp
  then have c: "map_of d ''citations'' = None"
    by (simp add: map_of_eq_None_iff)
  obtain a where a: "analyze_paper U p = Inr a" "PaperAnalysis.citations a = citation_text p"
    using analyze_paper_total by meson
  show ?thesis
    by (intro exI [of _ d] exI [of _ a] conjI d c a)
qed

lemma insort_key_map:
  "insort_key f (g x) (map g ys) = map g (insort_key (\<lambda>y. f (g y)) x ys)"
  by (induction ys) auto

lemma sort_key_map: "sort_key f (map g xs) = map g (sort_key (\<lambda>y. f (g y)) xs)"
  by (induction xs) (auto simp: insort_key_map)

lemma scored_comprehension:
  "[(f sent, sent). sent \<leftarrow> sentences, f sent > (0::nat)]
     = map (\<lambda>s. (f s, s)) [s \<leftarrow> sentences. f s > 0]"
  by (induction sentences) auto

lemma ranked_sentences:
  "map snd (take top_k (sort_scored [(f sent, sent). sent \<leftarrow> sentences, f sent > (0::nat)]))
     = take top_k (sort_key (\<lambda>s. - int (f s)) [s \<leftarrow> sentences. f s > 0])"
  by (simp add: sort_scored_def scored_comprehension sort_key_map take_map comp_def)

lemma sort_key_desc_sorted:
  "sorted_wrt (\<lambda>a b. f a \<ge> f b) (sort_key (\<lambda>s. - int (f s)) xs)"
proof -
  have "sorted (map (\<lambda>s. - int (f s)) (sort_key (\<lambda>s. - int (f s)) xs))"
    by (rule sorted_sort_key)
  then show ?thesis by (simp add: sorted_map)
qed

lemma sort_key_desc_stable:
  "[s \<leftarrow> sort_key (\<lambda>s. - int (f s)) xs. f s = v] = [s \<leftarrow> xs. f s = v]"
proof -
  have "[s \<leftarrow> sort_key (\<lambda>s. - int (f s)) xs. - int (f s) = - int v]
          = [s \<leftarrow> xs. - int (f s) = - int v]"
    by (rule sort_key_stable)
  then show ?thesis by simp
qed

lemma extract_section_text_scored:
  assumes "map_of SECTION_KEYWORDS section = Some kws"
    and "\<exists>s \<in> set sentences. 0 < sentence_score U kws s"
  shows "extract_section_text U sentences section top_k =
           Inr (join_space (take top_k
             (sort_key (\<lambda>s. - int (sentence_score U kws s))
                [s \<leftarrow> sentences. 0 < sentence_score U kws s])))"
proof -
  have ne: "[(sentence_score U kws sent, sent). sent \<leftarrow> sentences, sentence_score U kws sent > 0] \<noteq> []"
    using assms(2) by (auto simp: scored_comprehension filter_empty_conv)
  show ?thesis
    unfolding extract_section_text_def Let_def
    by (simp only: assms(1) option.case ne if_True ranked_sentences simp_thms)
qed

lemma keyword_lists_distinct:
  "map_of SECTION_KEYWORDS section = Some kws \<Longrightarrow> distinct kws"
  by (auto simp: SECTION_KEYWORDS_def str_eq_iff split: if_splits)

lemma sentence_score_card:
  assumes "distinct kws"
  shows "sentence_score U kws sent
           = card {kw \<in> set kws. \<exists>pre post. lower U sent = pre @ kw @ post}"
proof -
  have "{kw \<in> set kws. \<exists>pre post. lower U sent = pre @ kw @ post}
          = {kw. sublist kw (lower U sent)} \<inter> set kws"
    by (auto simp: sublist_def)
  then show ?thesis
    using assms by (simp add: sentence_score_def Let_def distinct_length_filter)
qed

lemma classify_scenario:
  "SectionExtractor_extract U
     (str ''We propose a new method. Prior work used heuristic rules. However, the approach is costly and limited.'')
   = Inr [(''insights'',
           str ''This paper focuses on a concrete problem setting and proposes a targeted strategy. Core context: We propose a new method. Prior work used heuristic rules. Technical direction: We propose a new method. Main outcome: We propose a new method.''),
          (''literature_review'', str ''Prior work used heuristic rules.''),
          (''method_used'', str ''We propose a new method.''),
          (''contributions'', str ''We propose a new method.''),
          (''limitations'', str ''However, the approach is costly and limited.''),
          (''future_work'',
           str ''Inferred future direction from limitations: extend evaluation across more diverse datasets, improve robustness in edge cases, and optimize efficiency for real-world deployment. Key limitation context: However, the approach is costly and limited.''),
          (''research_gap'',
           str ''Current work indicates a gap between benchmark performance and reliable deployment in real settings. More standardized evaluation protocols, transparent failure analysis, and cross-domain generalization studies are needed. Evidence from related-work context: Prior work used heuristic rules. Observed constraints: However, the approach is costly and limited. Forward direction: Inferred future direction from limitations: extend evaluation across more diverse datasets, improve robustness in edge cases, and optimize efficiency for real-world deployment. Key limitation context: However, the approach is costly and limited.'')]"
  by code_simp


lemma join_space_concat:
  "xs \<noteq> [] \<Longrightarrow> join_space xs = concat (map (\<lambda>s. s @ [32]) (butlast xs)) @ last xs"
  by (induction xs rule: join_space.induct) auto

text \<open>
  Claim C5. For a category of the keyword table, with keyword list \<open>kws\<close>:
  the score of a sentence is the number of keywords of \<open>kws\<close> that occur as substrings of
  the lower-cased sentence; when some sentence scores above zero, the text returned is
  made of the first \<open>top_k\<close> sentences of the ranking \<open>ranked\<close> - each of them but the
  last followed by one space (code point 32), then the last; the empty text when \<open>top_k\<close>
  is zero - where \<open>ranked\<close> holds exactly the sentences of positive score, by
  non-increasing score, sentences of equal score in their original order. \<open>extract\<close> calls this with
  \<open>top_k = 2\<close> for literature_review, contributions, limitations and future_work and with
  \<open>top_k = 3\<close> for method_used. On the three-sentence scenario the first sentence is the
  method_used text, the second the literature_review text and the third the limitations
  text; on a text of four sentences that score 1, 2, 2 and 1 for method_used, the
  method_used text is the second, the third and the first sentence, joined by single
  spaces.
\<close>

theorem extract_section_text_top_k:
  assumes "map_of SECTION_KEYWORDS section = Some kws"
  shows "sentence_score U kws sent
           = card {kw \<in> set kws. \<exists>pre post. lower U sent = pre @ kw @ post}
    \<and> ((\<exists>s \<in> set sentences. 0 < sentence_score U kws s) \<longrightarrow>
         (\<exists>ranked.
            ranked \<noteq> []
          \<and> extract_section_text U sentences section top_k
              = Inr (if top_k = 0 then []
                     else concat (map (\<lambda>s. s @ [32]) (butlast (take top_k ranked)))
                          @ last (take top_k ranked))
          \<and> mset ranked = mset [s \<leftarrow> sentences. 0 < sentence_score U kws s]
          \<and> sorted_wrt (\<lambda>a b. sentence_score U kws a \<ge> sentence_score U kws b) ranked
          \<and> (\<forall>v. [s \<leftarrow> ranked. sentence_score U kws s = v]
                  = [s \<leftarrow> sentences. 0 < sentence_score U kws s \<and> sentence_score U kws s = v])))
    \<and> (split_sentences U t \<noteq> [] \<longrightarrow>
         (\<exists>lr mu co li fw d.
            extract_section_text U (split_sentences U t) ''literature_review'' 2 = Inr lr
          \<and> extract_section_text U (split_sentences U t) ''method_used'' 3 = Inr mu
          \<and> extract_section_text U (split_sentences U t) ''contributions'' 2 = Inr co
          \<and> extract_section_text U (split_sentences U t) ''limitations'' 2 = Inr li
          \<and> extract_section_text U (split_sentences U t) ''future_work'' 2 = Inr fw
          \<and> SectionExtractor_extract U t = Inr d
          \<and> map_of d ''literature_review'' = Some lr
          \<and> map_of d ''method_used'' = Some mu
          \<and> map_of d ''contributions'' = Some co
          \<and> map_of d ''limitations'' = Some li
          \<and> map_of d ''future_work'' =
              Some (if sublist (str ''Not explicitly stated'') fw
                    then derive_future_work li else fw)))
    \<and> (\<exists>d. SectionExtractor_extract U
              (str ''We propose a new method. Prior work used heuristic rules. However, the approach is costly and limited.'')
            = Inr d
          \<and> map_of d ''method_used'' = Some (str ''We propose a new method.'')
          \<and> map_of d ''literature_review'' = Some (str ''Prior work used heuristic rules.'')
          \<and> map_of d ''limitations''
              = Some (str ''However, the approach is costly and limited.''))
    \<and> split_sentences U
          (str ''Our model works. We propose a method. Our approach uses a framework. The dataset is new.'')
        = [str ''Our model works.'', str ''We propose a method.'',
           str ''Our approach uses a framework.'', str ''The dataset is new.'']
    \<and> extract_section_text U
          [str ''Our model works.'', str ''We propose a method.'',
           str ''Our approach uses a framework.'', str ''The dataset is new.'']
          ''method_used'' 3
        = Inr (str ''We propose a method. Our approach uses a framework. Our model works.'')"
proof (intro conjI)
  show "sentence_score U kws sent
           = card {kw \<in> set kws. \<exists>pre post. lower U sent = pre @ kw @ post}"
    by (rule sentence_score_card [OF keyword_lists_distinct [OF assms]])
next
  show "(\<exists>s \<in> set sentences. 0 < sentence_score U kws s) \<longrightarrow>
         (\<exists>ranked.
            ranked \<noteq> []
          \<and> extract_section_text U sentences section top_k
              = Inr (if top_k = 0 then []
                     else concat (map (\<lambda>s. s @ [32]) (butlast (take top_k ranked)))
                          @ last (take top_k ranked))
          \<and> mset ranked = mset [s \<leftarrow> sentences. 0 < sentence_score U kws s]
          \<and> sorted_wrt (\<lambda>a b. sentence_score U kws a \<ge> sentence_score U kws b) ranked
          \<and> (\<forall>v. [s \<leftarrow> ranked. sentence_score U kws s = v]
                  = [s \<leftarrow> sentences. 0 < sentence_score U kws s \<and> sentence_score U kws s = v]))"
  proof
    assume pos: "\<exists>s \<in> set sentences. 0 < sentence_score U kws s"
    define ranked where
      "ranked = sort_key (\<lambda>s. - int (sentence_score U kws s))
                  [s \<leftarrow> sentences. 0 < sentence_score U kws s]"
    have r2: "mset ranked = mset [s \<leftarrow> sentences. 0 < sentence_score U kws s]"
      unfolding ranked_def by simp
    have "[s \<leftarrow> sentences. 0 < sentence_score U kws s] \<noteq> []"
      using pos by (auto simp: filter_empty_conv)
    with r2 have r0: "ranked \<noteq> []" by (metis mset_zero_iff)
    have "extract_section_text U sentences section top_k
                = Inr (join_space (take top_k ranked))"
      unfolding ranked_def by (rule extract_section_text_scored [OF assms pos])
    then have r1: "extract_section_text U sentences section top_k
              = Inr (if top_k = 0 then []
                     else concat (map (\<lambda>s. s @ [32]) (butlast (take top_k ranked)))
                          @ last (take top_k ranked))"
    proof (cases "top_k = 0")
      case True
      with \<open>extract_section_text U sentences section top_k
                = Inr (join_space (take top_k ranked))\<close>
      show ?thesis by simp
    next
      case False
      with r0 have "take top_k ranked \<noteq> []" by (cases ranked) auto
      from join_space_concat [OF this]
        \<open>extract_section_text U sentences section top_k
                = Inr (join_space (take top_k ranked))\<close> False
      show ?thesis by simp
    qed
    have r3: "sorted_wrt (\<lambda>a b. sentence_score U kws a \<ge> sentence_score U kws b) ranked"
      unfolding ranked_def by (rule sort_key_desc_sorted)
    have r4: "\<forall>v. [s \<leftarrow> ranked. sentence_score U kws s = v]
                  = [s \<leftarrow> sentences. 0 < sentence_score U kws s \<and> sentence_score U kws s = v]"
      unfolding ranked_def by (simp add: sort_key_desc_stable conj_commute)
    show "\<exists>ranked.
            ranked \<noteq> []
          \<and> extract_section_text U sentences section top_k
              = Inr (if top_k = 0 then []
                     else concat (map (\<lambda>s. s @ [32]) (butlast (take top_k ranked)))
                          @ last (take top_k ranked))
          \<and> mset ranked = mset [s \<leftarrow> sentences. 0 < sentence_score U kws s]
          \<and> sorted_wrt (\<lambda>a b. sentence_score U kws a \<ge> sentence_score U kws b) ranked
          \<and> (\<forall>v. [s \<leftarrow> ranked. sentence_score U kws s = v]
                  = [s \<leftarrow> sentences. 0 < sentence_score U kws s \<and> sentence_score U kws s = v])"
      by (intro exI [of _ ranked] conjI r0 r1 r2 r3 r4)
  qed
next
  show "split_sentences U t \<noteq> [] \<longrightarrow>
         (\<exists>lr mu co li fw d.
            extract_section_text U (split_sentences U t) ''literature_review'' 2 = Inr lr
          \<and> extract_section_text U (split_sentences U t) ''method_used'' 3 = Inr mu
          \<and> extract_section_text U (split_sentences U t) ''contributions'' 2 = Inr co
          \<and> extract_section_text U (split_sentences U t) ''limitations'' 2 = Inr li
          \<and> extract_section_text U (split_sentences U t) ''future_work'' 2 = Inr fw
          \<and> SectionExtractor_extract U t = Inr d
          \<and> map_of d ''literature_review'' = Some lr
          \<and> map_of d ''method_used'' = Some mu
          \<and> map_of d ''contributions'' = Some co
          \<and> map_of d ''limitations'' = Some li
          \<and> map_of d ''future_work'' =
              Some (if sublist (str ''Not explicitly stated'') fw
                    then derive_future_work li else fw))"
  proof
    assume ne: "split_sentences U t \<noteq> []"
    from extract_section_texts [OF ne] obtain lr mu co li fw where e:
      "extract_section_text U (split_sentences U t) ''literature_review'' 2 = Inr lr"
      "extract_section_text U (split_sentences U t) ''method_used'' 3 = Inr mu"
      "extract_section_text U (split_sentences U t) ''contributions'' 2 = Inr co"
      "extract_section_text U (split_sentences U t) ''limitations'' 2 = Inr li"
      "extract_section_text U (split_sentences U t) ''future_work'' 2 = Inr fw" .
    note d = extract_with_sentences [OF ne e]
    show "\<exists>lr mu co li fw d.
            extract_section_text U (split_sentences U t) ''literature_review'' 2 = Inr lr
          \<and> extract_section_text U (split_sentences U t) ''method_used'' 3 = Inr mu
          \<and> extract_section_text U (split_sentences U t) ''contributions'' 2 = Inr co
          \<and> extract_section_text U (split_sentences U t) ''limitations'' 2 = Inr li
          \<and> extract_section_text U (split_sentences U t) ''future_work'' 2 = Inr fw
          \<and> SectionExtractor_extract U t = Inr d
          \<and> map_of d ''literature_review'' = Some lr
          \<and> map_of d ''method_used'' = Some mu
          \<and> map_of d ''contributions'' = Some co
          \<and> map_of d ''limitations'' = Some li
          \<and> map_of d ''future_work'' =
              Some (if sublist (str ''Not explicitly stated'') fw
                    then derive_future_work li else fw)"
      by (intro exI [of _ lr] exI [of _ mu] exI [of _ co] exI [of _ li] exI [of _ fw]
            exI [of _ "[(''insights'', build_insights (split_sentences U t) mu co),
            (''literature_review'', lr),
            (''method_used'', mu),
            (''contributions'', co),
            (''limitations'', li),
            (''future_work'',
               if sublist (str ''Not explicitly stated'') fw
               then derive_future_work li else fw),
            (''research_gap'',
               derive_research_gap lr li
                 (if sublist (str ''Not explicitly stated'') fw
                  then derive_future_work li else fw))]"]
            conjI e d) simp_all
  qed
next
  show "\<exists>d. SectionExtractor_extract U
              (str ''We propose a new method. Prior work used heuristic rules. However, the approach is costly and limited.'')
            = Inr d
          \<and> map_of d ''method_used'' = Some (str ''We propose a new method.'')
          \<and> map_of d ''literature_review'' = Some (str ''Prior work used heuristic rules.'')
          \<and> map_of d ''limitations''
              = Some (str ''However, the approach is costly and limited.'')"
    by (simp add: classify_scenario)
next
  show "split_sentences U
          (str ''Our model works. We propose a method. Our approach uses a framework. The dataset is new.'')
        = [str ''Our model works.'', str ''We propose a method.'',
           str ''Our approach uses a framework.'', str ''The dataset is new.'']"
    by code_simp
next
  show "extract_section_text U
          [str ''Our model works.'', str ''We propose a method.'',
           str ''Our approach uses a framework.'', str ''The dataset is new.'']
          ''method_used'' 3
        = Inr (str ''We propose a method. Our approach uses a framework. Our model works.'')"
    by code_simp
qed

theorem extract_section_text_top_k_witness:
  "map_of SECTION_KEYWORDS ''method_used'' =
     Some (map str [''we propose'', ''our approach'', ''method'', ''framework'', ''architecture'',
           ''algorithm'', ''model'', ''training'', ''dataset'', ''evaluation'', ''experiment''])
   \<and> (\<exists>s \<in> set [str ''Our model works.'', str ''We propose a method.'',
                  str ''Our approach uses a framework.'', str ''The dataset is new.''].
         0 < sentence_score plain
               (map str [''we propose'', ''our approach'', ''method'', ''framework'',
                  ''architecture'', ''algorithm'', ''model'', ''training'', ''dataset'',
                  ''evaluation'', ''experiment'']) s)
   \<and> split_sentences plain (str ''We propose a method. Our approach uses a model.'') \<noteq> []
   \<and> (\<exists>ranked.
         ranked \<noteq> []
       \<and> str ''We propose a method. Our approach uses a framework. Our model works.''
           = concat (map (\<lambda>s. s @ [32]) (butlast (take 3 ranked))) @ last (take 3 ranked)
       \<and> mset ranked
           = mset [s \<leftarrow> [str ''Our model works.'', str ''We propose a method.'',
                          str ''Our approach uses a framework.'', str ''The dataset is new.''].
                    0 < sentence_score plain
                          (map str [''we propose'', ''our approach'', ''method'',
                             ''framework'', ''architecture'', ''algorithm'', ''model'',
                             ''training'', ''dataset'', ''evaluation'', ''experiment'']) s])
   \<and> (\<exists>mu. extract_section_text plain
               (split_sentences plain (str ''We propose a method. Our approach uses a model.''))
               ''method_used'' 3 = Inr mu)"
proof -
  let ?kws = "map str [''we propose'', ''our approach'', ''method'', ''framework'',
                  ''architecture'', ''algorithm'', ''model'', ''training'', ''dataset'',
                  ''evaluation'', ''experiment'']"
  let ?S = "[str ''Our model works.'', str ''We propose a method.'',
             str ''Our approach uses a framework.'', str ''The dataset is new.'']"
  have h1: "map_of SECTION_KEYWORDS ''method_used'' = Some ?kws"
    by (simp add: SECTION_KEYWORDS_def)
  have "0 < sentence_score plain ?kws (str ''We propose a method.'')"
    by code_simp
  then have h2: "\<exists>s \<in> set ?S. 0 < sentence_score plain ?kws s"
    by simp
  have h3: "split_sentences plain (str ''We propose a method. Our approach uses a model.'') \<noteq> []"
    by code_simp
  note inst = extract_section_text_top_k
    [OF h1, where U = plain and sentences = ?S and top_k = 3
      and t = "str ''We propose a method. Our approach uses a model.''"]
  note i2 = inst [THEN conjunct2, THEN conjunct1, THEN mp, OF h2]
  note i3 = inst [THEN conjunct2, THEN conjunct2, THEN conjunct1, THEN mp, OF h3]
  note ev = inst [THEN conjunct2, THEN conjunct2, THEN conjunct2, THEN conjunct2,
                  THEN conjunct2]
  from i2 obtain ranked where r:
    "ranked \<noteq> []"
    "extract_section_text plain ?S ''method_used'' 3
       = Inr (if (3 :: nat) = 0 then []
              else concat (map (\<lambda>s. s @ [32]) (butlast (take 3 ranked))) @ last (take 3 ranked))"
    "mset ranked = mset [s \<leftarrow> ?S. 0 < sentence_score plain ?kws s]"
    by (elim exE conjE)
  from r(2) ev have "Inr (str ''We propose a method. Our approach uses a framework. Our model works.'')
           = (Inr (concat (map (\<lambda>s. s @ [32]) (butlast (take 3 ranked))) @ last (take 3 ranked))
              :: exn + pystr)"
    by simp
  then have r2: "str ''We propose a method. Our approach uses a framework. Our model works.''
           = concat (map (\<lambda>s. s @ [32]) (butlast (take 3 ranked))) @ last (take 3 ranked)"
    by (simp only: sum.inject)
  from r(1) r2 r(3) have c2: "\<exists>ranked.
         ranked \<noteq> []
       \<and> str ''We propose a method. Our approach uses a framework. Our model works.''
           = concat (map (\<lambda>s. s @ [32]) (butlast (take 3 ranked))) @ last (take 3 ranked)
       \<and> mset ranked = mset [s \<leftarrow> ?S. 0 < sentence_score plain ?kws s]"
    by blast
  from i3 obtain mu where "extract_section_text plain
               (split_sentences plain (str ''We propose a method. Our approach uses a model.''))
               ''method_used'' 3 = Inr mu"
    by (elim exE conjE)
  then have c3: "\<exists>mu. extract_section_text plain
               (split_sentences plain (str ''We propose a method. Our approach uses a model.''))
               ''method_used'' 3 = Inr mu"
    by (rule exI)
  show ?thesis by (intro conjI h1 h2 h3 c2 c3)
qed

section \<open>Properties of metadata enrichment\<close>

lemma request_loop_step:
  assumes "int attempt < attempts"
  shows "(\<exists>r. request_loop tr req attempts attempt trace = (trace @ [Get req], r))
       \<or> (int attempt < attempts - 1
          \<and> request_loop tr req attempts attempt trace
              = request_loop tr req attempts (Suc attempt)
                  (trace @ [Get req, Sleep (0.6 * (real attempt + 1))]))"
  using assms
  by (subst (1 2) request_loop.simps)
     (auto simp: Let_def split: get_outcome.splits sum.splits)

lemma requested_urls_append:
  "requested_urls (xs @ ys) = requested_urls xs @ requested_urls ys"
  by (simp add: requested_urls_def)

lemma request_loop_urls:
  "\<exists>new. fst (request_loop tr req attempts attempt trace) = trace @ new
         \<and> set (requested_urls new) \<subseteq> {url req}"
proof (induction "nat (attempts - int attempt)" arbitrary: attempt trace)
  case 0
  then have "\<not> int attempt < attempts" by simp
  then show ?case by (simp add: request_loop_done requested_urls_def)
next
  case (Suc k)
  then have lt: "int attempt < attempts" by linarith
  from request_loop_step [OF lt, of tr req trace]
  show ?case
  proof
    assume "\<exists>r. request_loop tr req attempts attempt trace = (trace @ [Get req], r)"
    then obtain r where "request_loop tr req attempts attempt trace = (trace @ [Get req], r)"
      by blast
    then have "fst (request_loop tr req attempts attempt trace) = trace @ [Get req]"
      "set (requested_urls [Get req]) \<subseteq> {url req}"
      by (simp_all add: requested_urls_def)
    then show ?thesis by blast
  next
    assume a: "int attempt < attempts - 1
          \<and> request_loop tr req attempts attempt trace
              = request_loop tr req attempts (Suc attempt)
                  (trace @ [Get req, Sleep (0.6 * (real attempt + 1))])"
    from Suc(2) have k: "k = nat (attempts - int (Suc attempt))" by simp
    from Suc(1) [OF k, of "trace @ [Get req, Sleep (0.6 * (real attempt + 1))]"]
    obtain new where new:
      "fst (request_loop tr req attempts (Suc attempt)
              (trace @ [Get req, Sleep (0.6 * (real attempt + 1))]))
         = (trace @ [Get req, Sleep (0.6 * (real attempt + 1))]) @ new"
      "set (requested_urls new) \<subseteq> {url req}"
      by blast
    have "fst (request_loop tr req attempts attempt trace)
            = trace @ ([Get req, Sleep (0.6 * (real attempt + 1))] @ new)"
      using a new(1) by simp
    moreover have "set (requested_urls ([Get req, Sleep (0.6 * (real attempt + 1))] @ new))
                     \<subseteq> {url req}"
      using new(2) by (simp add: requested_urls_append) (simp add: requested_urls_def)
    ultimately show ?thesis by blast
  qed
qed

lemma request_json_urls:
  "\<exists>new. fst (request_json_with_retries tr u ps attempts tmo trace) = trace @ new
         \<and> set (requested_urls new) \<subseteq> {u}"
  using request_loop_urls
    [of tr "\<lparr>url = u, params = ps, timeout = tmo,
             headers = [(''User-Agent'', ''ScholarSync/1.0 (+local-upload-enrichment)'')]\<rparr>"
        attempts 0 trace]
  by (simp add: request_json_with_retries_def)

lemma doi_url_not_search: "doi_url d \<noteq> search_url"
  by (simp add: doi_url_def search_url_def str_def)

lemma lookup_by_doi_urls:
  "\<exists>new. fst (lookup_semantic_scholar_by_doi U tr trace doi) = trace @ new
         \<and> search_url \<notin> set (requested_urls new)"
proof (cases "rstrip_chars (str '').,;'') (lower U (strip U doi)) = []")
  case True
  then have "fst (lookup_semantic_scholar_by_doi U tr trace doi) = trace @ []"
    by (simp add: lookup_semantic_scholar_by_doi_def)
  moreover have "search_url \<notin> set (requested_urls [])"
    by (simp add: requested_urls_def)
  ultimately show ?thesis by blast
next
  case False
  define d where "d = rstrip_chars (str '').,;'') (lower U (strip U doi))"
  obtain new where new:
    "fst (request_json_with_retries tr (doi_url d) [(''fields'', JStr FIELDS)] 3 14 trace)
       = trace @ new"
    "set (requested_urls new) \<subseteq> {doi_url d}"
    using request_json_urls by blast
  have "fst (lookup_semantic_scholar_by_doi U tr trace doi)
          = fst (request_json_with_retries tr (doi_url d) [(''fields'', JStr FIELDS)] 3 14 trace)"
    using False
    by (auto simp: lookup_semantic_scholar_by_doi_def d_def Let_def
             split: prod.splits sum.splits)
  with new(1) have "fst (lookup_semantic_scholar_by_doi U tr trace doi) = trace @ new"
    by simp
  moreover have "search_url \<notin> set (requested_urls new)"
    using new(2) doi_url_not_search [of d] by auto
  ultimately show ?thesis by blast
qed

text \<open>
  Claim C7. When a DOI is given (a non-empty string, as every DOI-shaped match is) and the
  DOI lookup returns a record, \<open>_lookup_semantic_scholar\<close> returns that record and the
  trace of the DOI lookup: the only requests issued are those of the DOI lookup, none of
  them to the title-search URL.
\<close>

theorem doi_lookup_precedes_title_search:
  assumes "doi \<noteq> []"
    and "lookup_semantic_scholar_by_doi U tr trace doi = (trace1, exact)"
    and "truthy exact"
  shows "lookup_semantic_scholar U tr trace (Some doi) title_arg = (trace1, exact)
         \<and> (\<exists>new. trace1 = trace @ new \<and> search_url \<notin> set (requested_urls new))"
proof
  show "lookup_semantic_scholar U tr trace (Some doi) title_arg = (trace1, exact)"
    using assms by (simp add: lookup_semantic_scholar_def)
next
  from lookup_by_doi_urls [of U tr trace doi] assms(2)
  show "\<exists>new. trace1 = trace @ new \<and> search_url \<notin> set (requested_urls new)"
    by simp
qed

lemma doi_lookup_example:
  "lookup_semantic_scholar_by_doi plain
     (always_ok (JDict [(str ''title'', JStr (str ''A paper'')), (str ''citationCount'', JNum 7)])) []
     (str ''10.1000/XYZ123.'')
   = ([Get \<lparr>url = str ''https://api.semanticscholar.org/graph/v1/paper/DOI:10.1000/xyz123'',
             params = [(''fields'',
                        JStr (str ''title,year,authors,venue,url,openAccessPdf,citationCount''))],
             timeout = 14,
             headers = [(''User-Agent'', ''ScholarSync/1.0 (+local-upload-enrichment)'')]\<rparr>],
      JDict [(str ''title'', JStr (str ''A paper'')), (str ''year'', JNull),
             (str ''authors'', JList []), (str ''venue'', JStr []), (str ''paper_url'', JStr []),
             (str ''pdf_url'', JStr []), (str ''citation_count'', JNum 7)])"
  by code_simp

theorem doi_lookup_precedes_title_search_witness:
  "lookup_semantic_scholar plain
     (always_ok (JDict [(str ''title'', JStr (str ''A paper'')), (str ''citationCount'', JNum 7)])) []
     (Some (str ''10.1000/XYZ123.'')) (Some (str ''A paper''))
   = ([Get \<lparr>url = str ''https://api.semanticscholar.org/graph/v1/paper/DOI:10.1000/xyz123'',
             params = [(''fields'',
                        JStr (str ''title,year,authors,venue,url,openAccessPdf,citationCount''))],
             timeout = 14,
             headers = [(''User-Agent'', ''ScholarSync/1.0 (+local-upload-enrichment)'')]\<rparr>],
      JDict [(str ''title'', JStr (str ''A paper'')), (str ''year'', JNull),
             (str ''authors'', JList []), (str ''venue'', JStr []), (str ''paper_url'', JStr []),
             (str ''pdf_url'', JStr []), (str ''citation_count'', JNum 7)])"
proof -
  have h1: "str ''10.1000/XYZ123.'' \<noteq> []" by (simp add: str_def)
  have h3: "truthy (JDict [(str ''title'', JStr (str ''A paper'')), (str ''year'', JNull),
             (str ''authors'', JList []), (str ''venue'', JStr []), (str ''paper_url'', JStr []),
             (str ''pdf_url'', JStr []), (str ''citation_count'', JNum 7)])"
    by simp
  from doi_lookup_precedes_title_search [OF h1 doi_lookup_example h3, of "Some (str ''A paper'')"]
  show ?thesis by (rule conjunct1)
qed

section \<open>Properties of the multi-source search\<close>

text \<open>
  Claim C8. When the combined search raises a \<open>requests\<close> exception, \<open>safe_search\<close> calls
  the arXiv backend alone and its outcome is the outcome of that call: the papers arXiv
  returns are returned and nothing is raised; \<open>safe_search\<close> raises only if this arXiv
  call raises.
\<close>

theorem safe_search_falls_back:
  assumes "search search_arxiv search_semantic_scholar calls query max_results = (calls1, Inl e)"
    and "is_RequestException e"
  shows "safe_search search_arxiv search_semantic_scholar calls query max_results
           = (Suc calls1, search_arxiv calls1 query max_results)
       \<and> (\<forall>found. search_arxiv calls1 query max_results = Inr found \<longrightarrow>
            snd (safe_search search_arxiv search_semantic_scholar calls query max_results)
              = Inr found)
       \<and> (\<forall>e1. snd (safe_search search_arxiv search_semantic_scholar calls query max_results)
                  = Inl e1 \<longrightarrow>
            search_arxiv calls1 query max_results = Inl e1)"
  using assms by (simp add: safe_search_def)

theorem safe_search_falls_back_witness:
  "search (\<lambda>n q m. Inr [example_paper ''A'' ''We propose a method.'' (Some 2021)])
          (\<lambda>n q m. Inl ConnectionError) 0 (str ''graphs'') 12
     = (2, Inl ConnectionError)
   \<and> is_RequestException ConnectionError
   \<and> safe_search (\<lambda>n q m. Inr [example_paper ''A'' ''We propose a method.'' (Some 2021)])
          (\<lambda>n q m. Inl ConnectionError) 0 (str ''graphs'') 12
     = (3, Inr [example_paper ''A'' ''We propose a method.'' (Some 2021)])"
proof -
  have h1: "search (\<lambda>n q m. Inr [example_paper ''A'' ''We propose a method.'' (Some 2021)])
          (\<lambda>n q m. Inl ConnectionError) 0 (str ''graphs'') 12
     = (2, Inl ConnectionError)"
    by (simp add: search_def)
  have h2: "is_RequestException ConnectionError"
    by (simp add: is_RequestException_def)
  from safe_search_falls_back [OF h1 h2]
  have "safe_search (\<lambda>n q m. Inr [example_paper ''A'' ''We propose a method.'' (Some 2021)])
          (\<lambda>n q m. Inl ConnectionError) 0 (str ''graphs'') 12
     = (3, Inr [example_paper ''A'' ''We propose a method.'' (Some 2021)])"
    by simp
  with h1 h2 show ?thesis by (intro conjI)
qed

section \<open>Properties of the similarity graph\<close>

lemma update_fresh: "k \<notin> fst ` set al \<Longrightarrow> AList.update k v al = al @ [(k, v)]"
  by (induction al) auto

lemma edge_step_graph:
  assumes "i < j"
  shows "node_labels (edge_step sim i j g) = node_labels g"
    and "map_of (edges (edge_step sim i j g)) (x, y)
           = (if x = i \<and> y = j \<and> 0.12 \<le> sim i j then Some (sim i j)
              else map_of (edges g) (x, y))"
    and "distinct (map fst (edges g)) \<Longrightarrow> distinct (map fst (edges (edge_step sim i j g)))"
  using assms
  by (auto simp: edge_step_def Let_def add_edge_def AList.update_conv' AList.distinct_update)

lemma inner_loop:
  assumes "i < a"
  shows "node_labels (fold (edge_step sim i) [a..<b] g) = node_labels g
       \<and> (\<forall>x y. map_of (edges (fold (edge_step sim i) [a..<b] g)) (x, y)
           = (if x = i \<and> a \<le> y \<and> y < b \<and> 0.12 \<le> sim i y
              then Some (sim i y) else map_of (edges g) (x, y)))
       \<and> (distinct (map fst (edges g)) \<longrightarrow>
            distinct (map fst (edges (fold (edge_step sim i) [a..<b] g))))"
proof (induction b)
  case 0
  then show ?case by simp
next
  case (Suc b)
  show ?case
  proof (cases "a \<le> b")
    case False
    then show ?thesis by auto
  next
    case True
    then have ib: "i < b" using assms by simp
    from True have upt: "[a..<Suc b] = [a..<b] @ [b]" by simp
    show ?thesis
      using Suc True
      unfolding upt fold_append comp_def
      by (auto simp: edge_step_graph [OF ib] less_Suc_eq)
  qed
qed

lemma row_edges_graph:
  "node_labels (row_edges n sim i g) = node_labels g"
  "map_of (edges (row_edges n sim i g)) (x, y)
     = (if x = i \<and> i < y \<and> y < n \<and> 0.12 \<le> sim i y
        then Some (sim i y) else map_of (edges g) (x, y))"
  "distinct (map fst (edges g)) \<Longrightarrow> distinct (map fst (edges (row_edges n sim i g)))"
  using inner_loop [of i "Suc i" sim n g]
  unfolding row_edges_def by (auto simp: Suc_le_eq)

lemma outer_loop:
  "node_labels (fold (row_edges n sim) [0..<m] g) = node_labels g
   \<and> (\<forall>x y. map_of (edges (fold (row_edges n sim) [0..<m] g)) (x, y)
      = (if x < m \<and> x < y \<and> y < n \<and> 0.12 \<le> sim x y
         then Some (sim x y) else map_of (edges g) (x, y)))
   \<and> (distinct (map fst (edges g)) \<longrightarrow>
        distinct (map fst (edges (fold (row_edges n sim) [0..<m] g))))"
proof (induction m)
  case 0
  then show ?case by simp
next
  case (Suc m)
  then show ?case
    by (auto simp: row_edges_graph less_Suc_eq)
qed

lemma threshold_edges_graph:
  "node_labels (threshold_edges n sim g) = node_labels g"
  "map_of (edges (threshold_edges n sim g)) (x, y)
      = (if x < y \<and> y < n \<and> 0.12 \<le> sim x y
         then Some (sim x y) else map_of (edges g) (x, y))"
  "distinct (map fst (edges g)) \<Longrightarrow> distinct (map fst (edges (threshold_edges n sim g)))"
  using outer_loop [of n sim n g]
  unfolding threshold_edges_def by auto

lemma add_nodes:
  assumes "\<forall>i \<in> fst ` set (node_labels g). i < k"
  shows "node_labels (fold (\<lambda>(idx, t) g. add_node idx t g) (enumerate k ts) g)
           = node_labels g @ enumerate k ts
       \<and> edges (fold (\<lambda>(idx, t) g. add_node idx t g) (enumerate k ts) g) = edges g"
  using assms
proof (induction ts arbitrary: k g)
  case Nil
  then show ?case by simp
next
  case (Cons t ts)
  have fresh: "k \<notin> fst ` set (node_labels g)"
    using Cons.prems by auto
  have nl: "node_labels (add_node k t g) = node_labels g @ [(k, t)]"
    by (simp add: add_node_def update_fresh [OF fresh])
  have "\<forall>i \<in> fst ` set (node_labels (add_node k t g)). i < Suc k"
    using Cons.prems by (auto simp: nl less_Suc_eq)
  from Cons.IH [OF this] show ?case
    by (simp add: nl) (simp add: add_node_def)
qed

lemma chain_loop_nodes:
  "node_labels (fold (\<lambda>i g1. add_edge i (Suc i) w g1) xs g) = node_labels g"
  by (induction xs arbitrary: g) (simp_all add: add_edge_def)

lemma chain_loop:
  assumes "edges g = []"
  shows "edges (fold (\<lambda>i g1. add_edge i (Suc i) w g1) [0..<m] g)
           = map (\<lambda>i. ((i, Suc i), w)) [0..<m]"
proof (induction m)
  case 0
  then show ?case using assms by simp
next
  case (Suc m)
  have fresh: "(m, Suc m) \<notin> fst ` set (map (\<lambda>i. ((i, Suc i), w)) [0..<m])"
    by auto
  show ?case
    using Suc by (simp add: add_edge_def update_fresh [OF fresh])
qed

lemma chain_edges_graph:
  "node_labels (chain_edges n g) = node_labels g"
  "edges g = [] \<Longrightarrow> edges (chain_edges n g) = map (\<lambda>i. ((i, Suc i), 0.05)) [0..<n - 1]"
  unfolding chain_edges_def
  by (simp_all add: chain_loop_nodes chain_loop)

lemma adjacent_sym: "adjacent g u v \<Longrightarrow> adjacent g v u"
  by (auto simp: adjacent_def)

lemma reachable_sym: "reachable g u v \<Longrightarrow> reachable g v u"
  unfolding reachable_def
proof (induction rule: rtrancl_induct)
  case base
  show ?case by simp
next
  case (step y z)
  then have "(z, y) \<in> {(a, b). adjacent g a b}"
    by (auto dest: adjacent_sym)
  with step show ?case
    by (meson converse_rtrancl_into_rtrancl)
qed

lemma reachable_trans: "reachable g u v \<Longrightarrow> reachable g v w \<Longrightarrow> reachable g u w"
  unfolding reachable_def by (rule rtrancl_trans)

lemma path_reachable:
  assumes "edges g = map (\<lambda>i. ((i, Suc i), w)) [0..<n - 1]" "u < n"
  shows "reachable g 0 u"
  using assms(2)
proof (induction u)
  case 0
  show ?case by (simp add: reachable_def)
next
  case (Suc u)
  then have r: "reachable g 0 u" by simp
  have "u < n - 1" using Suc.prems by simp
  then have "(u, Suc u) \<in> fst ` set (edges g)"
    unfolding assms(1) by (auto simp: image_iff)
  then have "reachable g u (Suc u)"
    by (auto simp: reachable_def adjacent_def)
  with r show ?case by (rule reachable_trans)
qed

lemma path_connected:
  assumes "edges g = map (\<lambda>i. ((i, Suc i), w)) [0..<n - 1]"
    and "fst ` set (node_labels g) = {0..<n}"
  shows "connected_graph g"
  unfolding connected_graph_def assms(2)
proof (intro ballI)
  fix u v assume "u \<in> {0..<n}" "v \<in> {0..<n}"
  then have "reachable g 0 u" "reachable g 0 v"
    using path_reachable [OF assms(1)] by auto
  then show "reachable g u v"
    using reachable_sym reachable_trans by blast
qed

lemma similarity_graph_nodes:
  "node_labels (similarity_graph titles sim) = enumerate 0 titles"
proof -
  have "\<forall>i \<in> fst ` set (node_labels empty_graph). i < 0"
    by (simp add: empty_graph_def)
  from add_nodes [OF this, of titles]
  have g0: "node_labels (fold (\<lambda>(idx, t) g. add_node idx t g) (enumerate 0 titles) empty_graph)
              = enumerate 0 titles"
    by (simp add: empty_graph_def)
  show ?thesis
    by (simp add: similarity_graph_def Let_def threshold_edges_graph(1) g0 chain_edges_graph(1))
qed

lemma similarity_graph_threshold:
  "edges (threshold_edges (length titles) sim
      (fold (\<lambda>(idx, t) g. add_node idx t g) (enumerate 0 titles) empty_graph)) = es \<Longrightarrow>
   distinct (map fst es)
   \<and> (\<forall>x y. map_of es (x, y)
        = (if x < y \<and> y < length titles \<and> 0.12 \<le> sim x y then Some (sim x y) else None))"
proof -
  assume es: "edges (threshold_edges (length titles) sim
      (fold (\<lambda>(idx, t) g. add_node idx t g) (enumerate 0 titles) empty_graph)) = es"
  have "\<forall>i \<in> fst ` set (node_labels empty_graph). i < 0"
    by (simp add: empty_graph_def)
  from add_nodes [OF this, of titles]
  have e0: "edges (fold (\<lambda>(idx, t) g. add_node idx t g) (enumerate 0 titles) empty_graph) = []"
    by (simp add: empty_graph_def)
  show ?thesis
    using threshold_edges_graph(2,3)
      [where n = "length titles" and sim = sim
         and g = "fold (\<lambda>(idx, t) g. add_node idx t g) (enumerate 0 titles) empty_graph"]
    unfolding es e0 by simp
qed

lemma similarity_graph_cases:
  fixes titles sim
  defines "g1 \<equiv> threshold_edges (length titles) sim
      (fold (\<lambda>(idx, t) g. add_node idx t g) (enumerate 0 titles) empty_graph)"
  shows "(\<forall>i j. i < j \<and> j < length titles \<longrightarrow> sim i j < 0.12) \<Longrightarrow>
           edges (similarity_graph titles sim)
             = map (\<lambda>i. ((i, Suc i), 0.05)) [0..<length titles - 1]"
    and "(\<exists>i j. i < j \<and> j < length titles \<and> 0.12 \<le> sim i j) \<Longrightarrow>
           similarity_graph titles sim = g1"
proof -
  note th = similarity_graph_threshold [OF refl, of titles sim, folded g1_def]
  {
    assume none: "\<forall>i j. i < j \<and> j < length titles \<longrightarrow> sim i j < 0.12"
    have "map_of (edges g1) k = None" for k
    proof (cases k)
      case (Pair x y)
      show ?thesis
        using th none unfolding Pair by (auto simp: not_le [symmetric])
    qed
    then have "map_of (edges g1) = Map.empty" by (simp add: fun_eq_iff)
    then have e: "edges g1 = []" by (simp only: map_of_eq_empty_iff)
    then have "number_of_edges g1 = 0" by (simp add: number_of_edges_def)
    then have "similarity_graph titles sim = chain_edges (length titles) g1"
      by (simp add: similarity_graph_def Let_def g1_def)
    then show "edges (similarity_graph titles sim)
             = map (\<lambda>i. ((i, Suc i), 0.05)) [0..<length titles - 1]"
      using chain_edges_graph(2) [OF e] by simp
  }
  {
    assume "\<exists>i j. i < j \<and> j < length titles \<and> 0.12 \<le> sim i j"
    then obtain i j where "i < j" "j < length titles" "0.12 \<le> sim i j" by blast
    then have "map_of (edges g1) (i, j) = Some (sim i j)"
      using th by simp
    then have "edges g1 \<noteq> []" by auto
    then have "number_of_edges g1 \<noteq> 0" by (simp add: number_of_edges_def)
    then show "similarity_graph titles sim = g1"
      by (simp add: similarity_graph_def Let_def g1_def)
  }
qed

text \<open>
  Claim C1, as stated, fails. Of three papers, let the first two have the same abstract
  and the third one an abstract without a term in common with them: the similarity is 1
  between the first two and 0 with the third. The graph gets the single edge 0-1, which
  is fewer than n - 1 = 2; the chain edges are added only to a graph without any edge, so
  node 2 stays isolated and the graph is not connected.
\<close>

theorem similarity_graph_disconnected:
  "paper_network_figure equal_or_disjoint
     [example_analysis ''P1'' ''graph neural networks'',
      example_analysis ''P2'' ''graph neural networks'',
      example_analysis ''P3'' ''protein folding dynamics'']
   = Inr (NetworkFigure
            \<lparr>node_labels = [(0, str ''P1''), (1, str ''P2''), (2, str ''P3'')], edges = [((0, 1), 1)]\<rparr>)
   \<and> number_of_edges
        \<lparr>node_labels = [(0, str ''P1''), (1, str ''P2''), (2, str ''P3'')], edges = [((0, 1), 1)]\<rparr> < 3 - 1
   \<and> isolated
        \<lparr>node_labels = [(0, str ''P1''), (1, str ''P2''), (2, str ''P3'')], edges = [((0, 1), 1)]\<rparr> 2
   \<and> \<not> connected_graph
        \<lparr>node_labels = [(0, str ''P1''), (1, str ''P2''), (2, str ''P3'')], edges = [((0, 1), 1)]\<rparr>"
proof (intro conjI)
  show "paper_network_figure equal_or_disjoint
     [example_analysis ''P1'' ''graph neural networks'',
      example_analysis ''P2'' ''graph neural networks'',
      example_analysis ''P3'' ''protein folding dynamics'']
   = Inr (NetworkFigure
            \<lparr>node_labels = [(0, str ''P1''), (1, str ''P2''), (2, str ''P3'')], edges = [((0, 1), 1)]\<rparr>)"
    by code_simp
next
  show "number_of_edges
        \<lparr>node_labels = [(0, str ''P1''), (1, str ''P2''), (2, str ''P3'')], edges = [((0, 1), 1)]\<rparr> < 3 - 1"
    by (simp add: number_of_edges_def)
next
  show "isolated
        \<lparr>node_labels = [(0, str ''P1''), (1, str ''P2''), (2, str ''P3'')], edges = [((0, 1), 1)]\<rparr> 2"
    by (simp add: isolated_def adjacent_def)
next
  let ?g = "\<lparr>node_labels = [(0, str ''P1''), (1, str ''P2''), (2, str ''P3'')],
             edges = [((0 :: nat, 1 :: nat), 1 :: real)]\<rparr>"
  have "v \<in> {0, 1}" if "reachable ?g 0 v" for v
    using that unfolding reachable_def
    by (induction rule: rtrancl_induct) (auto simp: adjacent_def)
  then have "\<not> reachable ?g 0 2" by fastforce
  then show "\<not> connected_graph ?g"
    by (auto simp: connected_graph_def)
qed

text \<open>
  Claim C1, amended. For every list of at least two analyses for which the similarity
  matrix is computed, the figure holds a graph with the nodes \<open>0, ..., n - 1\<close>. If no pair
  of papers reaches the similarity 0.12, its edges are the chain \<open>i - (i + 1)\<close> of weight
  0.05: there are \<open>n - 1\<close> of them and the graph is connected. If some pair reaches 0.12,
  its edges are exactly the pairs \<open>i < j\<close> of similarity at least 0.12, each with that
  similarity as weight, and no chain edge is added.
\<close>

theorem similarity_graph_edges:
  assumes "2 \<le> length analyses"
    and "cosine_tfidf (map (\<lambda>a. abstract (paper a)) analyses) = Inr sim"
  shows "\<exists>g. paper_network_figure cosine_tfidf analyses = Inr (NetworkFigure g)
     \<and> map fst (node_labels g) = [0..<length analyses]
     \<and> ((\<forall>i j. i < j \<and> j < length analyses \<longrightarrow> sim i j < 0.12) \<longrightarrow>
          edges g = map (\<lambda>i. ((i, Suc i), 0.05)) [0..<length analyses - 1]
          \<and> number_of_edges g = length analyses - 1
          \<and> connected_graph g)
     \<and> ((\<exists>i j. i < j \<and> j < length analyses \<and> 0.12 \<le> sim i j) \<longrightarrow>
          distinct (map fst (edges g))
          \<and> (\<forall>x y. map_of (edges g) (x, y)
                 = (if x < y \<and> y < length analyses \<and> 0.12 \<le> sim x y
                    then Some (sim x y) else None)))"
proof -
  define titles where "titles = map (\<lambda>a. title (paper a)) analyses"
  define g where "g = similarity_graph titles sim"
  have len: "length titles = length analyses" by (simp add: titles_def)
  have fig: "paper_network_figure cosine_tfidf analyses = Inr (NetworkFigure g)"
    using assms
    by (cases analyses)
       (auto simp: paper_network_figure_def Let_def then_do_def g_def titles_def)
  have nodes: "map fst (node_labels g) = [0..<length analyses]"
    by (simp add: g_def similarity_graph_nodes len)
  have chain: "edges g = map (\<lambda>i. ((i, Suc i), 0.05)) [0..<length analyses - 1]
          \<and> number_of_edges g = length analyses - 1 \<and> connected_graph g"
    if none: "\<forall>i j. i < j \<and> j < length analyses \<longrightarrow> sim i j < 0.12"
  proof -
    have e: "edges g = map (\<lambda>i. ((i, Suc i), 0.05)) [0..<length analyses - 1]"
      using similarity_graph_cases(1) [of titles sim] none
      unfolding g_def len by blast
    have k: "fst ` set (node_labels g) = {0..<length analyses}"
      using nodes by (metis set_map set_upt)
    from e k have "connected_graph g" by (rule path_connected)
    with e show ?thesis by (simp add: number_of_edges_def)
  qed
  have thresh: "distinct (map fst (edges g))
          \<and> (\<forall>x y. map_of (edges g) (x, y)
                 = (if x < y \<and> y < length analyses \<and> 0.12 \<le> sim x y
                    then Some (sim x y) else None))"
    if some: "\<exists>i j. i < j \<and> j < length analyses \<and> 0.12 \<le> sim i j"
  proof -
    have "g = threshold_edges (length titles) sim
      (fold (\<lambda>(idx, t) g. add_node idx t g) (enumerate 0 titles) empty_graph)"
      using similarity_graph_cases(2) [of titles sim] some
      unfolding g_def len by blast
    from similarity_graph_threshold [OF this [symmetric, THEN arg_cong, of edges]]
    show ?thesis unfolding len .
  qed
  from fig nodes chain thresh show ?thesis by blast
qed

theorem similarity_graph_edges_witness:
  "(\<exists>g. paper_network_figure equal_or_disjoint
           [example_analysis ''P1'' ''graph neural networks'',
            example_analysis ''P2'' ''protein folding dynamics'',
            example_analysis ''P3'' ''ocean wave energy''] = Inr (NetworkFigure g)
        \<and> edges g = [((0, 1), 0.05), ((1, 2), 0.05)]
        \<and> connected_graph g)
   \<and> (\<exists>g. paper_network_figure equal_or_disjoint
           [example_analysis ''P1'' ''graph neural networks'',
            example_analysis ''P2'' ''graph neural networks'',
            example_analysis ''P3'' ''protein folding dynamics''] = Inr (NetworkFigure g)
        \<and> map_of (edges g) (0, 1) = Some 1
        \<and> map_of (edges g) (1, 2) = None)"
proof
  let ?as = "[example_analysis ''P1'' ''graph neural networks'',
            example_analysis ''P2'' ''protein folding dynamics'',
            example_analysis ''P3'' ''ocean wave energy'']"
  let ?abs = "[str ''graph neural networks'', str ''protein folding dynamics'',
              str ''ocean wave energy'']"
  let ?sim = "\<lambda>i j. if ?abs ! i = ?abs ! j then 1 else (0 :: real)"
  have h1: "2 \<le> length ?as" by simp
  have h2: "equal_or_disjoint (map (\<lambda>a. abstract (paper a)) ?as) = Inr ?sim"
    by (simp add: equal_or_disjoint_def example_analysis_def example_paper_def)
  have h3: "\<forall>i j. i < j \<and> j < length ?as \<longrightarrow> ?sim i j < 0.12"
  proof (intro allI impI)
    fix i j :: nat assume "i < j \<and> j < length ?as"
    then have "(i = 0 \<and> j = 1) \<or> (i = 0 \<and> j = 2) \<or> (i = 1 \<and> j = 2)" by auto
    then show "?sim i j < 0.12" by (auto simp: str_eq_iff)
  qed
  from similarity_graph_edges
    [where cosine_tfidf = equal_or_disjoint and analyses = ?as and sim = ?sim, OF h1 h2]
  obtain g where g:
    "paper_network_figure equal_or_disjoint ?as = Inr (NetworkFigure g)"
    "(\<forall>i j. i < j \<and> j < length ?as \<longrightarrow> ?sim i j < 0.12) \<longrightarrow>
          edges g = map (\<lambda>i. ((i, Suc i), 0.05)) [0..<length ?as - 1]
          \<and> number_of_edges g = length ?as - 1 \<and> connected_graph g"
    by blast
  from g(2) h3 have "edges g = map (\<lambda>i. ((i, Suc i), 0.05)) [0..<length ?as - 1]" "connected_graph g"
    by blast+
  moreover have "map (\<lambda>i. ((i, Suc i), 0.05 :: real)) [0..<length ?as - 1]
                   = [((0, 1), 0.05), ((1, 2), 0.05)]"
    by (simp add: upt_rec)
  ultimately show "\<exists>g. paper_network_figure equal_or_disjoint ?as = Inr (NetworkFigure g)
        \<and> edges g = [((0, 1), 0.05), ((1, 2), 0.05)] \<and> connected_graph g"
    using g(1) by auto
next
  let ?as = "[example_analysis ''P1'' ''graph neural networks'',
            example_analysis ''P2'' ''graph neural networks'',
            example_analysis ''P3'' ''protein folding dynamics'']"
  let ?abs = "[str ''graph neural networks'', str ''graph neural networks'',
              str ''protein folding dynamics'']"
  let ?sim = "\<lambda>i j. if ?abs ! i = ?abs ! j then 1 else (0 :: real)"
  have h1: "2 \<le> length ?as" by simp
  have h2: "equal_or_disjoint (map (\<lambda>a. abstract (paper a)) ?as) = Inr ?sim"
    by (simp add: equal_or_disjoint_def example_analysis_def example_paper_def)
  have h3: "\<exists>i j. i < j \<and> j < length ?as \<and> 0.12 \<le> ?sim i j"
    by (intro exI [of _ 0] exI [of _ 1]) simp
  from similarity_graph_edges
    [where cosine_tfidf = equal_or_disjoint and analyses = ?as and sim = ?sim, OF h1 h2]
  obtain g where g:
    "paper_network_figure equal_or_disjoint ?as = Inr (NetworkFigure g)"
    "(\<exists>i j. i < j \<and> j < length ?as \<and> 0.12 \<le> ?sim i j) \<longrightarrow>
          distinct (map fst (edges g))
          \<and> (\<forall>x y. map_of (edges g) (x, y)
                 = (if x < y \<and> y < length ?as \<and> 0.12 \<le> ?sim x y
                    then Some (?sim x y) else None))"
    by blast
  from g(2) h3 have m: "\<forall>x y. map_of (edges g) (x, y)
                 = (if x < y \<and> y < length ?as \<and> 0.12 \<le> ?sim x y
                    then Some (?sim x y) else None)"
    by blast
  have "map_of (edges g) (0, 1) = Some 1" "map_of (edges g) (1, 2) = None"
    by (simp_all add: m str_eq_iff)
  with g(1) show "\<exists>g. paper_network_figure equal_or_disjoint ?as = Inr (NetworkFigure g)
        \<and> map_of (edges g) (0, 1) = Some 1 \<and> map_of (edges g) (1, 2) = None"
    by auto
qed

end
